theory Spec2Isabelle
  imports Complex_Main "HOL-Library.Word"
begin

unbundle bit_operations_syntax

section \<open>Snow: colours, compositing, the clipped rectangle fill and the particle pool\<close>

text \<open>
  A shallow embedding of \<^verbatim>\<open>snow.cpp\<close>. Conventions:
  \<^item> a \<^verbatim>\<open>double\<close> is a \<open>real\<close>. An arithmetic operation on doubles is the exact operation
    followed by the rounding \<open>fl\<close> to a double, which is a parameter of the model; a double
    literal is the rounding of its decimal value, a \<^verbatim>\<open>float\<close> literal is written out
    exactly. The theorems about values computed in doubles assume \<open>double_rounding\<close>: the
    properties of rounding to the nearest double that their proofs use.
  \<^item> the result of \<^verbatim>\<open>RoundDoubleToInt32\<close> is a 32-bit word, read as the signed value
    \<open>sint\<close> that an \<^verbatim>\<open>int32_t\<close> holds. The four bounds of \<^verbatim>\<open>FillRect\<close> are those values;
    clamping them and counting from one to the other stays within the 32 bits. The
    \<^verbatim>\<open>int\<close> fields of the frame buffer are integers.
  \<^item> a pointer into the bitmap is its byte offset from \<^verbatim>\<open>buffer->bitmap\<close>; a pointer
    into \<^verbatim>\<open>state->particles\<close> is the index of the slot, the null pointer is \<open>None\<close>.
  \<^item> \<^verbatim>\<open>render.h\<close>, \<^verbatim>\<open>snow.h\<close> and \<^verbatim>\<open>math.cpp\<close> are not part of the sources at hand.
    The record types follow the fields that \<^verbatim>\<open>snow.cpp\<close> accesses; the helper functions
    of \<^verbatim>\<open>math.cpp\<close> are modelled from the specification and marked as such.
\<close>

type_synonym u8 = "8 word"
type_synonym u32 = "32 word"
type_synonym u64 = "64 word"
type_synonym int32_t = "32 word"
type_synonym double = real

subsection \<open>Parameters\<close>

text \<open>The two words of the global \<^verbatim>\<open>randomSeed\<close>.\<close>

type_synonym seed = "u64 \<times> u64"

text \<open>
  The parameters of the model: what the missing files declare and \<^verbatim>\<open>snow.cpp\<close> uses
  without the specification fixing it, that is \<^verbatim>\<open>sizeof(State)\<close> and the generators
  \<^verbatim>\<open>Random\<close> and \<^verbatim>\<open>RandomPercent\<close> of \<^verbatim>\<open>math.cpp\<close>, which read and update \<^verbatim>\<open>randomSeed\<close>;
  the rounding \<open>fl\<close> of a real number to a double; and \<open>Int32OutOfRange\<close>, what the
  conversion to \<^verbatim>\<open>int32_t\<close> leaves for a double whose nearest integer is beyond the range
  of \<^verbatim>\<open>int32_t\<close>. C++ does not define that conversion; the conversion instructions of
  x86 leave \<^verbatim>\<open>INT32_MIN\<close>. The result of \<^verbatim>\<open>Random\<close> is taken to be an unsigned 64-bit
  value, as the seed words are.
\<close>

record Decls =
  sizeof_State :: nat
  Random :: "seed \<Rightarrow> u64 \<times> seed"
  RandomPercent :: "seed \<Rightarrow> double \<times> seed"
  fl :: "real \<Rightarrow> double"
  Int32OutOfRange :: "double \<Rightarrow> int32_t"

text \<open>
  What the proofs use of the rounding to the nearest double (IEEE 754, 53 bits of
  precision): it leaves \<open>n / 2 ^ k\<close> as it is for an integer \<open>n\<close> of at most 53 bits and
  \<open>k \<le> 10\<close>; it is monotone; and between \<open>2 ^ -10\<close> and \<open>2 ^ 10\<close> in absolute value,
  where doubles neither overflow nor underflow, its relative error is at most \<open>2 ^ -53\<close>.
\<close>

definition double_rounding :: "(real \<Rightarrow> double) \<Rightarrow> bool" where
  "double_rounding r \<longleftrightarrow>
     (\<forall>(n::int) (k::nat). \<bar>n\<bar> \<le> 2 ^ 53 \<and> k \<le> 10 \<longrightarrow>
         r (real_of_int n / 2 ^ k) = real_of_int n / 2 ^ k)
     \<and> (\<forall>v w. v \<le> w \<longrightarrow> r v \<le> r w)
     \<and> (\<forall>v. 1 / 2 ^ 10 \<le> \<bar>v\<bar> \<and> \<bar>v\<bar> \<le> 2 ^ 10 \<longrightarrow> \<bar>r v - v\<bar> \<le> \<bar>v\<bar> / 2 ^ 53)"

subsection \<open>Colours\<close>

text \<open>
  \<^verbatim>\<open>Color\<close> is a union of the 32-bit word \<^verbatim>\<open>argb\<close> and the four 8-bit channels. The
  channels sit where \<^verbatim>\<open>GetDoubleColor\<close> shifts them from: alpha in bits 24-31, red in
  16-23, green in 8-15, blue in 0-7.
\<close>

record Color =
  Color_a :: u8
  Color_r :: u8
  Color_g :: u8
  Color_b :: u8

definition argb :: "Color \<Rightarrow> u32" where
  "argb c = push_bit 24 (ucast (Color_a c)) OR push_bit 16 (ucast (Color_r c))
            OR push_bit 8 (ucast (Color_g c)) OR ucast (Color_b c)"

text \<open>\<^verbatim>\<open>Color destColor = {*pixel};\<close>\<close>

definition Color_of :: "u32 \<Rightarrow> Color" where
  "Color_of w = \<lparr>Color_a = ucast (drop_bit 24 w), Color_r = ucast (drop_bit 16 w),
                 Color_g = ucast (drop_bit 8 w), Color_b = ucast w\<rparr>"

record DoubleColor =
  DoubleColor_a :: double
  DoubleColor_r :: double
  DoubleColor_g :: double
  DoubleColor_b :: double

subsection \<open>Helpers of \<^verbatim>\<open>math.cpp\<close>\<close>

text \<open>
  Modelled from the spec: the rounding rule of \<^verbatim>\<open>RoundDoubleToInt32\<close> and
  \<^verbatim>\<open>RoundDoubleToUInt32\<close> (\<^verbatim>\<open>math.cpp\<close> is missing). The specification says: rounded to
  the nearest integer, round-half-away-from-zero is assumed.
\<close>

definition RoundNearest :: "double \<Rightarrow> int" where
  "RoundNearest v = (if 0 \<le> v then \<lfloor>v + 1 / 2\<rfloor> else - \<lfloor>- v + 1 / 2\<rfloor>)"

text \<open>A double whose nearest integer is a value of \<^verbatim>\<open>int32_t\<close>.\<close>

definition rounds_to_int32 :: "double \<Rightarrow> bool" where
  "rounds_to_int32 v \<longleftrightarrow> - (2 ^ 31) \<le> RoundNearest v \<and> RoundNearest v < 2 ^ 31"

text \<open>
  Modelled from the spec: \<^verbatim>\<open>RoundDoubleToInt32\<close> (\<^verbatim>\<open>math.cpp\<close> is missing), the nearest
  integer as an \<^verbatim>\<open>int32_t\<close>. For a double whose nearest integer is beyond the range of
  \<^verbatim>\<open>int32_t\<close> the specification says nothing; the result is then the parameter
  \<open>Int32OutOfRange\<close>.
\<close>

definition RoundDoubleToInt32 :: "Decls \<Rightarrow> double \<Rightarrow> int32_t" where
  "RoundDoubleToInt32 D v =
     (if rounds_to_int32 v then word_of_int (RoundNearest v) else Int32OutOfRange D v)"

text \<open>
  Modelled from the spec: \<^verbatim>\<open>RoundDoubleToUInt32\<close> (\<^verbatim>\<open>math.cpp\<close> is missing), the nearest
  integer as a 32-bit unsigned value.
\<close>

definition RoundDoubleToUInt32 :: "double \<Rightarrow> u32" where
  "RoundDoubleToUInt32 v = word_of_int (RoundNearest v)"

text \<open>
  Modelled from the spec: \<^verbatim>\<open>Lerp\<close> (\<^verbatim>\<open>math.cpp\<close> is missing). The specification gives the
  result of \<^verbatim>\<open>Lerp(src.channel, dst.channel, percent)\<close> as
  \<open>dst.channel + percent \<times> (src.channel - dst.channel)\<close>, here computed in doubles.
\<close>

definition Lerp :: "Decls \<Rightarrow> double \<Rightarrow> double \<Rightarrow> double \<Rightarrow> double" where
  "Lerp D s d t = fl D (d + fl D (t * fl D (s - d)))"

text \<open>The macro \<^verbatim>\<open>Min\<close> (\<^verbatim>\<open>render.h\<close> is missing): the smaller of two values.\<close>

definition Min_int :: "int \<Rightarrow> int \<Rightarrow> int" where
  "Min_int i j = (if i < j then i else j)"

text \<open>
  The conversion of C++ from a floating-point value to \<^verbatim>\<open>uint8_t\<close>, as in
  \<^verbatim>\<open>result.r = Lerp(...)\<close>: the fraction is discarded (truncation towards zero).
\<close>

definition DoubleToUInt8 :: "double \<Rightarrow> u8" where
  "DoubleToUInt8 v = word_of_int (if 0 \<le> v then \<lfloor>v\<rfloor> else \<lceil>v\<rceil>)"

subsection \<open>Colour conversion and compositing\<close>

definition GetColor :: "Decls \<Rightarrow> DoubleColor \<Rightarrow> Color" where
  "GetColor D c =
     \<lparr>Color_a = ucast (RoundDoubleToUInt32 (fl D (DoubleColor_a c * 255))),
      Color_r = ucast (RoundDoubleToUInt32 (fl D (DoubleColor_r c * 255))),
      Color_g = ucast (RoundDoubleToUInt32 (fl D (DoubleColor_g c * 255))),
      Color_b = ucast (RoundDoubleToUInt32 (fl D (DoubleColor_b c * 255)))\<rparr>"

definition GetDoubleColor :: "Decls \<Rightarrow> u32 \<Rightarrow> DoubleColor" where
  "GetDoubleColor D c =
     \<lparr>DoubleColor_a = fl D (real (unat (drop_bit 24 c AND 0xff)) / 255),
      DoubleColor_r = fl D (real (unat (drop_bit 16 c AND 0xff)) / 255),
      DoubleColor_g = fl D (real (unat (drop_bit 8 c AND 0xff)) / 255),
      DoubleColor_b = fl D (real (unat (drop_bit 0 c AND 0xff)) / 255)\<rparr>"

definition Composite :: "Decls \<Rightarrow> Color \<Rightarrow> Color \<Rightarrow> Color" where
  "Composite D src dest =
     (let percent = fl D (real (unat (Color_a src)) / 255) in
      \<lparr>Color_a = Color_a src,
       Color_r = DoubleToUInt8 (Lerp D (real (unat (Color_r src))) (real (unat (Color_r dest))) percent),
       Color_g = DoubleToUInt8 (Lerp D (real (unat (Color_g src))) (real (unat (Color_g dest))) percent),
       Color_b = DoubleToUInt8 (Lerp D (real (unat (Color_b src))) (real (unat (Color_b dest))) percent)\<rparr>)"

text \<open>
  The value that the specification gives for a channel of \<open>Composite\<close>, as a real number:
  \<open>dst.channel + (src.alpha / 255) \<times> (src.channel - dst.channel)\<close>.
\<close>

definition blend :: "u8 \<Rightarrow> u8 \<Rightarrow> u8 \<Rightarrow> real" where
  "blend a s d = real (unat d) + real (unat a) / 255 * (real (unat s) - real (unat d))"

subsection \<open>The frame buffer\<close>

text \<open>
  The pixel storage behind \<^verbatim>\<open>buffer->bitmap\<close>: the 32-bit word stored at each byte
  offset, and the offsets written so far, the latest first. The list of written offsets
  is a ghost field, it records the stores the code performs.
\<close>

record Bitmap =
  cells :: "int \<Rightarrow> u32"
  written :: "int list"

record FrameBuffer =
  width :: int
  height :: int
  pitch :: int
  pixelBytes :: int
  bitmap :: Bitmap

definition GetPixel :: "FrameBuffer \<Rightarrow> int \<Rightarrow> int \<Rightarrow> int" where
  "GetPixel buffer x y = x * pixelBytes buffer + y * pitch buffer"

text \<open>\<^verbatim>\<open>*pixel = v\<close> for a \<^verbatim>\<open>uint32_t *pixel\<close>.\<close>

definition store32 :: "Bitmap \<Rightarrow> int \<Rightarrow> u32 \<Rightarrow> Bitmap" where
  "store32 bm pixel v = bm\<lparr>cells := (cells bm)(pixel := v), written := pixel # written bm\<rparr>"

subsection \<open>FillRect\<close>

text \<open>The body of the inner loop: the value stored through \<^verbatim>\<open>pixel\<close>.\<close>

definition FillPixel :: "Decls \<Rightarrow> Color \<Rightarrow> Bitmap \<Rightarrow> int \<Rightarrow> Bitmap" where
  "FillPixel D srcColor bm pixel =
     (if Color_a srcColor = 1 then store32 bm pixel (argb srcColor)
      else (let destColor = Color_of (cells bm pixel);
                color = Composite D srcColor destColor
            in store32 bm pixel (argb color)))"

text \<open>
  The inner loop \<^verbatim>\<open>for(int x = minX; x < maxX; x++)\<close>; \<^verbatim>\<open>pixel++\<close> advances a
  \<^verbatim>\<open>uint32_t\<close> pointer by four bytes.
\<close>

function FillRect_row :: "Decls \<Rightarrow> Color \<Rightarrow> int \<Rightarrow> int \<Rightarrow> int \<Rightarrow> Bitmap \<Rightarrow> Bitmap" where
  "FillRect_row D srcColor maxX x pixel bm =
     (if x < maxX
      then FillRect_row D srcColor maxX (x + 1) (pixel + 4) (FillPixel D srcColor bm pixel)
      else bm)"
  by pat_completeness auto
termination
  by (relation "measure (\<lambda>(D, srcColor, maxX, x, pixel, bm). nat (maxX - x))") auto

text \<open>The outer loop \<^verbatim>\<open>for(int y = minY; y < maxY; y++)\<close>; \<^verbatim>\<open>row += buffer->pitch\<close>.\<close>

function FillRect_rows ::
  "Decls \<Rightarrow> FrameBuffer \<Rightarrow> Color \<Rightarrow> int \<Rightarrow> int \<Rightarrow> int \<Rightarrow> int \<Rightarrow> int \<Rightarrow> Bitmap \<Rightarrow> Bitmap" where
  "FillRect_rows D buffer srcColor minX maxX maxY y row bm =
     (if y < maxY
      then FillRect_rows D buffer srcColor minX maxX maxY (y + 1) (row + pitch buffer)
             (FillRect_row D srcColor maxX minX row bm)
      else bm)"
  by pat_completeness auto
termination
  by (relation "measure (\<lambda>(D, buffer, srcColor, minX, maxX, maxY, y, row, bm). nat (maxY - y))") auto

definition FillRect ::
  "Decls \<Rightarrow> FrameBuffer \<Rightarrow> double \<Rightarrow> double \<Rightarrow> double \<Rightarrow> double \<Rightarrow> Color \<Rightarrow> FrameBuffer" where
  "FillRect D buffer realMinX realMinY realMaxX realMaxY srcColor =
     (let minX = sint (RoundDoubleToInt32 D realMinX);
          minY = sint (RoundDoubleToInt32 D realMinY);
          maxX = sint (RoundDoubleToInt32 D realMaxX);
          maxY = sint (RoundDoubleToInt32 D realMaxY);
          minX = (if minX < 0 then 0 else minX);
          minY = (if minY < 0 then 0 else minY);
          maxX = Min_int (width buffer) maxX;
          maxY = Min_int (height buffer) maxY;
          row = GetPixel buffer minX minY
      in buffer\<lparr>bitmap := FillRect_rows D buffer srcColor minX maxX maxY minY row (bitmap buffer)\<rparr>)"

subsection \<open>Particles and the persistent state\<close>

text \<open>
  The fields of \<^verbatim>\<open>Particle\<close>, \<^verbatim>\<open>State\<close> and \<^verbatim>\<open>Memory\<close> that \<^verbatim>\<open>snow.cpp\<close> accesses
  (\<^verbatim>\<open>snow.h\<close> and \<^verbatim>\<open>render.h\<close> are missing). \<^verbatim>\<open>lifetime\<close> and \<^verbatim>\<open>ticks\<close> are integers;
  the specification lets \<^verbatim>\<open>lifetime\<close> go negative, so it is signed. The array
  \<^verbatim>\<open>state->particles\<close> is a list, \<^verbatim>\<open>ArrayLength(state->particles)\<close> is its length.
\<close>

record Particle =
  Particle_radius :: double
  Particle_x :: double
  Particle_y :: double
  Particle_color :: DoubleColor
  Particle_lifetime :: int
  Particle_next :: "nat option"

record State =
  particles :: "Particle list"
  availableParticle :: "nat option"
  ticks :: int

record Memory =
  Memory_size :: nat
  isInitialized :: bool
  storage :: State

text \<open>
  The ways a call can stop: the failed \<^verbatim>\<open>Assert\<close>, the integer division by zero of
  \<^verbatim>\<open>Random() % buffer->width\<close>, and the use of a particle pointer that does not point
  into \<^verbatim>\<open>state->particles\<close>.
\<close>

datatype error = AssertionFailure | DivisionByZero | WildPointer

subsection \<open>Drawing, initialising and animating a particle\<close>

definition DrawParticle :: "Decls \<Rightarrow> FrameBuffer \<Rightarrow> Particle \<Rightarrow> FrameBuffer" where
  "DrawParticle D buffer p =
     (let c = GetColor D (Particle_color p)
      in FillRect D buffer (fl D (Particle_x p - Particle_radius p))
           (fl D (Particle_y p - Particle_radius p))
           (fl D (Particle_x p + Particle_radius p))
           (fl D (Particle_y p + Particle_radius p)) c)"

text \<open>
  In \<^verbatim>\<open>Random() % buffer->width\<close> the width is converted to the unsigned type of the
  left operand; the remainder is then converted to \<^verbatim>\<open>double\<close>. The \<^verbatim>\<open>float\<close> literals
  \<^verbatim>\<open>0.55f\<close> and \<^verbatim>\<open>0.9f\<close> are the floats \<open>9227469 / 2 ^ 24\<close> and \<open>7549747 / 2 ^ 23\<close>;
  \<^verbatim>\<open>2.5f\<close> and \<^verbatim>\<open>1.0f\<close> are exact.
\<close>

definition InitParticle :: "Decls \<Rightarrow> FrameBuffer \<Rightarrow> Particle \<Rightarrow> seed \<Rightarrow> error + Particle \<times> seed" where
  "InitParticle D buffer p sd =
     (let p = p\<lparr>Particle_radius := 2.5\<rparr>;
          (rnd, sd) = Random D sd
      in if (word_of_int (width buffer) :: u64) = 0 then Inl DivisionByZero
         else
           (let p = p\<lparr>Particle_x := fl D (real (unat (rnd mod word_of_int (width buffer))))\<rparr>;
                p = p\<lparr>Particle_y := fl D (- 2 * Particle_radius p)\<rparr>;
                (pct, sd) = RandomPercent D sd;
                p = p\<lparr>Particle_color :=
                      \<lparr>DoubleColor_a = fl D (0.25 + fl D (0.75 * pct)),
                       DoubleColor_r = 9227469 / 2 ^ 24,
                       DoubleColor_g = 7549747 / 2 ^ 23, DoubleColor_b = 1\<rparr>\<rparr>;
                p = p\<lparr>Particle_lifetime := 200\<rparr>
            in Inr (p, sd)))"

definition AnimateParticle :: "Decls \<Rightarrow> Particle \<Rightarrow> double \<Rightarrow> Particle" where
  "AnimateParticle D p secondsElapsed =
     (let p = p\<lparr>Particle_x := fl D (Particle_x p + 0)\<rparr>;
          p = p\<lparr>Particle_y := fl D (Particle_y p + fl D (160 * secondsElapsed))\<rparr>
      in p\<lparr>Particle_lifetime := Particle_lifetime p - 1\<rparr>)"

subsection \<open>UpdateAndRender\<close>

text \<open>
  The loop that links the free list:
  \<^verbatim>\<open>for(int i = ArrayLength(state->particles) - 2; i >= 0; i--) p->next = p + 1;\<close>
\<close>

function LinkFreeList :: "int \<Rightarrow> Particle list \<Rightarrow> Particle list" where
  "LinkFreeList i ps =
     (if 0 \<le> i
      then LinkFreeList (i - 1) (ps[nat i := (ps ! nat i)\<lparr>Particle_next := Some (nat i + 1)\<rparr>])
      else ps)"
  by pat_completeness auto
termination
  by (relation "measure (\<lambda>(i, ps). nat (i + 1))") auto

text \<open>The first-call branch \<^verbatim>\<open>if(!memory->isInitialized)\<close>.\<close>

definition Initialize :: "Memory \<Rightarrow> seed \<Rightarrow> Memory \<times> seed" where
  "Initialize memory sd =
     (if \<not> isInitialized memory
      then (let sd = (0x0bdb1dd352d7ddd4, 0x009b18cd16d1df52);
                state = storage memory;
                state = state\<lparr>particles :=
                          LinkFreeList (int (length (particles state)) - 2) (particles state)\<rparr>;
                state = state\<lparr>availableParticle := Some 0\<rparr>
            in (memory\<lparr>storage := state, isInitialized := True\<rparr>, sd))
      else (memory, sd))"

text \<open>
  The background fill:
  \<^verbatim>\<open>DoubleColor background = {1, 0.01, 0.02, 0.05};\<close>
  \<^verbatim>\<open>FillRect(buffer, 0, 0, buffer->width, buffer->height, GetColor(background));\<close>
\<close>

definition background :: "Decls \<Rightarrow> DoubleColor" where
  "background D =
     \<lparr>DoubleColor_a = 1, DoubleColor_r = fl D 0.01, DoubleColor_g = fl D 0.02,
      DoubleColor_b = fl D 0.05\<rparr>"

definition FillBackground :: "Decls \<Rightarrow> FrameBuffer \<Rightarrow> FrameBuffer" where
  "FillBackground D buffer =
     FillRect D buffer 0 0 (real_of_int (width buffer)) (real_of_int (height buffer))
       (GetColor D (background D))"

text \<open>
  Taking the head of the free list, which the specification calls Acquire:
  \<^verbatim>\<open>Particle *p = state->availableParticle; if(p) { state->availableParticle = p->next; ... }\<close>
  The result is the slot taken, if any, and the state.
\<close>

definition Acquire :: "State \<Rightarrow> error + nat option \<times> State" where
  "Acquire state =
     (case availableParticle state of
        None \<Rightarrow> Inr (None, state)
      | Some i \<Rightarrow>
          if i < length (particles state)
          then Inr (Some i, state\<lparr>availableParticle := Particle_next (particles state ! i)\<rparr>)
          else Inl WildPointer)"

text \<open>The spawning block \<^verbatim>\<open>if(state->ticks % 2 == 0) { ... }\<close>.\<close>

definition Spawn :: "Decls \<Rightarrow> FrameBuffer \<Rightarrow> State \<Rightarrow> seed \<Rightarrow> error + State \<times> seed" where
  "Spawn D buffer state sd =
     (if ticks state mod 2 = 0
      then (case Acquire state of
              Inl e \<Rightarrow> Inl e
            | Inr (None, state) \<Rightarrow> Inr (state, sd)
            | Inr (Some i, state) \<Rightarrow>
                (case InitParticle D buffer (particles state ! i) sd of
                   Inl e \<Rightarrow> Inl e
                 | Inr (p, sd) \<Rightarrow> Inr (state\<lparr>particles := (particles state)[i := p]\<rparr>, sd)))
      else Inr (state, sd))"

text \<open>The body of the loop over the slots.\<close>

definition SimulateParticle ::
  "Decls \<Rightarrow> double \<Rightarrow> Particle \<Rightarrow> FrameBuffer \<Rightarrow> Particle \<times> FrameBuffer" where
  "SimulateParticle D secondsElapsed p buffer =
     (if Particle_lifetime p \<noteq> 0 \<and> Particle_lifetime p < 1 then (p, buffer)
      else (let p = AnimateParticle D p secondsElapsed in (p, DrawParticle D buffer p)))"

text \<open>\<^verbatim>\<open>for(size_t i = 0; i < ArrayLength(state->particles); i++)\<close>\<close>

function SimulateParticles ::
  "Decls \<Rightarrow> double \<Rightarrow> nat \<Rightarrow> Particle list \<Rightarrow> FrameBuffer \<Rightarrow> Particle list \<times> FrameBuffer" where
  "SimulateParticles D secondsElapsed i ps buffer =
     (if i < length ps
      then (let (p, buffer) = SimulateParticle D secondsElapsed (ps ! i) buffer
            in SimulateParticles D secondsElapsed (i + 1) (ps[i := p]) buffer)
      else (ps, buffer))"
  by pat_completeness auto
termination
  by (relation "measure (\<lambda>(D, secondsElapsed, i, ps, buffer). length ps - i)") auto

text \<open>
  Modelled from the spec: the macro \<^verbatim>\<open>Assert\<close> (\<^verbatim>\<open>render.h\<close> is missing). The
  specification says a failed assertion is fatal: the call stops.
\<close>

definition Assert :: "bool \<Rightarrow> error + unit" where
  "Assert c = (if c then Inr () else Inl AssertionFailure)"

definition UpdateAndRender ::
  "Decls \<Rightarrow> Memory \<Rightarrow> seed \<Rightarrow> FrameBuffer \<Rightarrow> double \<Rightarrow> error + Memory \<times> seed \<times> FrameBuffer" where
  "UpdateAndRender D memory sd buffer secondsElapsed =
     (case Assert (sizeof_State D < Memory_size memory) of
        Inl e \<Rightarrow> Inl e
      | Inr _ \<Rightarrow>
          (let (memory, sd) = Initialize memory sd;
               buffer = FillBackground D buffer
           in case Spawn D buffer (storage memory) sd of
                Inl e \<Rightarrow> Inl e
              | Inr (state, sd) \<Rightarrow>
                  (let (ps, buffer) = SimulateParticles D secondsElapsed 0 (particles state) buffer;
                       state = state\<lparr>particles := ps\<rparr>;
                       state = state\<lparr>ticks := ticks state + 1\<rparr>
                   in Inr (memory\<lparr>storage := state\<rparr>, sd, buffer))))"

subsection \<open>Successive calls\<close>

text \<open>
  \<open>k\<close> successive Acquire operations: the slots they return, in order, and the state
  after the last.
\<close>

fun Acquires :: "nat \<Rightarrow> State \<Rightarrow> error + nat option list \<times> State" where
  "Acquires 0 state = Inr ([], state)"
| "Acquires (Suc k) state =
     (case Acquire state of
        Inl e \<Rightarrow> Inl e
      | Inr (r, state) \<Rightarrow>
          (case Acquires k state of
             Inl e \<Rightarrow> Inl e
           | Inr (rs, state) \<Rightarrow> Inr (r # rs, state)))"

text \<open>
  The host calling \<^verbatim>\<open>UpdateAndRender\<close> once per frame, each time with a frame buffer
  and the seconds elapsed, on the memory block and the seed the previous call left.
\<close>

fun Run :: "Decls \<Rightarrow> Memory \<Rightarrow> seed \<Rightarrow> (FrameBuffer \<times> double) list \<Rightarrow> error + Memory \<times> seed" where
  "Run D memory sd [] = Inr (memory, sd)"
| "Run D memory sd ((buffer, secondsElapsed) # calls) =
     (case UpdateAndRender D memory sd buffer secondsElapsed of
        Inl e \<Rightarrow> Inl e
      | Inr (memory, sd, buffer) \<Rightarrow> Run D memory sd calls)"

text \<open>
  Modelled from the spec: the range of \<^verbatim>\<open>RandomPercent\<close> (\<^verbatim>\<open>math.cpp\<close> is missing). The
  specification gives the alpha \<^verbatim>\<open>0.25 + 0.75*RandomPercent()\<close> as randomized in
  \<open>[0.25, 1.0]\<close>: the generator returns a fraction between 0 and 1.
\<close>

definition RandomPercent_in_range :: "Decls \<Rightarrow> bool" where
  "RandomPercent_in_range D \<longleftrightarrow>
     (\<forall>s. 0 \<le> fst (RandomPercent D s) \<and> fst (RandomPercent D s) \<le> 1)"

text \<open>
  The state of the pool after \<open>k\<close> calls on a block that was all zero: the tick counter
  is \<open>k\<close>, the slots below \<open>j = min N ((k + 1) div 2)\<close> have been taken, the free list runs
  from slot \<open>j\<close> to the last slot, and each slot on it has radius 0 and the lifetime 0
  before the first call, \<open>-1\<close> after it.
\<close>

definition pool_inv :: "nat \<Rightarrow> State \<Rightarrow> bool" where
  "pool_inv k state \<longleftrightarrow>
     (let N = length (particles state); j = min N ((k + 1) div 2) in
      ticks state = int k
      \<and> availableParticle state = (if j < N then Some j else None)
      \<and> (\<forall>i. j \<le> i \<and> i < N \<longrightarrow>
            Particle_next (particles state ! i) = (if i + 1 < N then Some (i + 1) else None)
            \<and> Particle_radius (particles state ! i) = 0
            \<and> Particle_lifetime (particles state ! i) = (if k = 0 then 0 else - 1)))"

subsection \<open>Frame buffers and outcomes that agree\<close>



subsection \<open>Sample inputs\<close>

text \<open>A buffer of two by two pixels, all zero, with nothing written yet.\<close>

definition sample_buffer :: FrameBuffer where
  "sample_buffer =
     \<lparr>width = 2, height = 2, pitch = 8, pixelBytes = 4,
      bitmap = \<lparr>cells = (\<lambda>a. 0), written = []\<rparr>\<rparr>"

text \<open>A buffer of 100 by 100 pixels.\<close>

definition sample_buffer100 :: FrameBuffer where
  "sample_buffer100 =
     \<lparr>width = 100, height = 100, pitch = 400, pixelBytes = 4,
      bitmap = \<lparr>cells = (\<lambda>a. 0), written = []\<rparr>\<rparr>"

text \<open>A slot of a block that is all zero.\<close>

definition zero_particle :: Particle where
  "zero_particle =
     \<lparr>Particle_radius = 0, Particle_x = 0, Particle_y = 0,
      Particle_color = \<lparr>DoubleColor_a = 0, DoubleColor_r = 0, DoubleColor_g = 0, DoubleColor_b = 0\<rparr>,
      Particle_lifetime = 0, Particle_next = None\<rparr>"

text \<open>A memory block of the given size, all zero, with \<open>n\<close> slots.\<close>

definition zero_memory :: "nat \<Rightarrow> nat \<Rightarrow> Memory" where
  "zero_memory n sz =
     \<lparr>Memory_size = sz, isInitialized = False,
      storage = \<lparr>particles = replicate n zero_particle, availableParticle = None, ticks = 0\<rparr>\<rparr>"

text \<open>
  A state of 64 bytes, two stand-ins for the generators, exact arithmetic for the
  rounding, and \<^verbatim>\<open>INT32_MIN\<close> for a conversion beyond the range of \<^verbatim>\<open>int32_t\<close>, as on x86.
\<close>

definition sample_decls :: Decls where
  "sample_decls =
     \<lparr>sizeof_State = 64,
      Random = (\<lambda>sd. (fst sd + snd sd, (snd sd, fst sd + snd sd))),
      RandomPercent = (\<lambda>sd. (1 / 2, (snd sd, fst sd))),
      fl = (\<lambda>v. v),
      Int32OutOfRange = (\<lambda>v. 0x80000000)\<rparr>"

text \<open>A block of 128 bytes, all zero, with two slots.\<close>

definition sample_memory :: Memory where
  "sample_memory =
     \<lparr>Memory_size = 128, isInitialized = False,
      storage = \<lparr>particles = [zero_particle, zero_particle], availableParticle = None, ticks = 0\<rparr>\<rparr>"

text \<open>The same block with a link left in its last slot.\<close>

definition garbage_memory :: Memory where
  "garbage_memory =
     \<lparr>Memory_size = 128, isInitialized = False,
      storage = \<lparr>particles = [zero_particle, zero_particle\<lparr>Particle_next := Some 0\<rparr>],
                 availableParticle = None, ticks = 0\<rparr>\<rparr>"

text \<open>A white of alpha 1, one step from fully transparent.\<close>

definition translucent :: Color where
  "translucent = \<lparr>Color_a = 1, Color_r = 255, Color_g = 255, Color_b = 255\<rparr>"

text \<open>
  The recursion equations of the loops are not simplification rules: each is an
  unconditional equation of the loop in terms of itself.
\<close>

declare FillRect_row.simps [simp del] FillRect_rows.simps [simp del]
  LinkFreeList.simps [simp del] SimulateParticles.simps [simp del]

section \<open>Rounding\<close>

lemma double_rounding_exact: "double_rounding (\<lambda>v. v)"
  by (simp add: double_rounding_def)

lemma fl_dyadic:
  "double_rounding r \<Longrightarrow> \<bar>n\<bar> \<le> 2 ^ 53 \<Longrightarrow> k \<le> 10 \<Longrightarrow>
     r (real_of_int n / 2 ^ k) = real_of_int n / 2 ^ k"
  unfolding double_rounding_def by blast

lemma fl_int:
  assumes "double_rounding r" "\<bar>n\<bar> \<le> 2 ^ 53"
  shows "r (real_of_int n) = real_of_int n"
  using fl_dyadic [OF assms, of 0] by simp

lemma fl_nat:
  assumes "double_rounding r" "n \<le> 2 ^ 53"
  shows "r (real n) = real n"
proof -
  have "\<bar>int n\<bar> \<le> 2 ^ 53" using assms(2) by (simp add: of_nat_le_iff [of n "2 ^ 53", where ?'a = int, simplified])
  from fl_int [OF assms(1) this] show ?thesis by simp
qed

lemma fl_quarters:
  assumes "double_rounding r" "\<bar>n\<bar> \<le> 2 ^ 53"
  shows "r (real_of_int n / 4) = real_of_int n / 4"
  using fl_dyadic [OF assms, of 2] by simp

lemma fl_mono: "double_rounding r \<Longrightarrow> v \<le> w \<Longrightarrow> r v \<le> r w"
  unfolding double_rounding_def by blast

lemma fl_error:
  "double_rounding r \<Longrightarrow> 1 / 2 ^ 10 \<le> \<bar>v\<bar> \<Longrightarrow> \<bar>v\<bar> \<le> 2 ^ 10 \<Longrightarrow> \<bar>r v - v\<bar> \<le> \<bar>v\<bar> / 2 ^ 53"
  unfolding double_rounding_def by blast

lemma fl_0 [simp]: "double_rounding r \<Longrightarrow> r 0 = 0"
  using fl_int [of r 0] by simp

lemma fl_1 [simp]: "double_rounding r \<Longrightarrow> r 1 = 1"
  using fl_int [of r 1] by simp

lemma RoundNearest_of_nat: "RoundNearest (real n) = int n"
  by (simp add: RoundNearest_def)

lemma RoundNearest_of_int: "RoundNearest (real_of_int n) = n"
  by (simp add: RoundNearest_def)

text \<open>Rounding returns the integer \<open>n\<close> for every value within one half of it.\<close>

lemma RoundNearest_near:
  assumes "\<bar>v - real n\<bar> < 1 / 2"
  shows "RoundNearest v = int n"
proof -
  have lo: "real n - 1 / 2 < v" and hi: "v < real n + 1 / 2" using assms by linarith+
  have e: "real_of_int (int n) = real n" by simp
  show ?thesis
  proof (cases "0 \<le> v")
    case True
    have "real_of_int (int n) \<le> v + 1 / 2" "v + 1 / 2 < real_of_int (int n) + 1"
      unfolding e using lo hi by linarith+
    then have "\<lfloor>v + 1 / 2\<rfloor> = int n" by (intro floor_unique)
    then show ?thesis using True by (simp add: RoundNearest_def)
  next
    case False
    then have "real n < 1 / 2" using lo by linarith
    then have n: "n = 0" by (cases n) auto
    have "real_of_int 0 \<le> - v + 1 / 2" "- v + 1 / 2 < real_of_int 0 + 1"
      using lo False unfolding n by simp_all
    then have "\<lfloor>- v + 1 / 2\<rfloor> = 0" by (intro floor_unique)
    then show ?thesis using False n by (simp add: RoundNearest_def)
  qed
qed

text \<open>
  A channel \<open>x\<close> between \<open>2 ^ -10\<close> and 1 whose exact product with 255 is within 0.45 of
  the integer \<open>n\<close>: rounded to a double, multiplied by 255 in doubles and rounded to the
  nearest integer, it gives \<open>n\<close>.
\<close>

lemma RoundNearest_scaled:
  assumes r: "double_rounding r" and x: "1 / 2 ^ 10 \<le> x" "x \<le> 1"
    and near: "\<bar>x * 255 - real n\<bar> \<le> 9 / 20"
  shows "RoundNearest (r (r x * 255)) = int n"
proof -
  have e1: "\<bar>r x - x\<bar> \<le> x / 2 ^ 53"
    using fl_error [OF r, of x] x by simp
  define y where "y = r x * 255"
  have y1: "\<bar>y - x * 255\<bar> \<le> 255 / 2 ^ 53"
  proof -
    have "\<bar>y - x * 255\<bar> = 255 * \<bar>r x - x\<bar>" unfolding y_def by (simp add: abs_if)
    also have "\<dots> \<le> 255 * (x / 2 ^ 53)" using e1 by simp
    also have "\<dots> \<le> 255 / 2 ^ 53" using x by simp
    finally show ?thesis .
  qed
  have c: "(255::real) / 2 ^ 53 \<le> 1 / 2048" by simp
  have "\<bar>y - x * 255\<bar> \<le> 1 / 2048" using y1 c by linarith
  then have b: "x * 255 - 1 / 2048 \<le> y" "y \<le> x * 255 + 1 / 2048" by linarith+
  have x': "1 / 1024 \<le> x" using x(1) by simp
  have ylo: "1 / 2 ^ 10 \<le> y" using b x' by simp
  have yhi: "y \<le> 2 ^ 9" using b x(2) by simp
  have e2: "\<bar>r y - y\<bar> \<le> 2 ^ 9 / 2 ^ 53"
  proof -
    have "\<bar>r y - y\<bar> \<le> \<bar>y\<bar> / 2 ^ 53" using fl_error [OF r, of y] ylo yhi by simp
    also have "\<dots> \<le> 2 ^ 9 / 2 ^ 53" using ylo yhi by (simp add: divide_right_mono)
    finally show ?thesis .
  qed
  have "\<bar>r y - real n\<bar> \<le> \<bar>r y - y\<bar> + \<bar>y - x * 255\<bar> + \<bar>x * 255 - real n\<bar>" by linarith
  also have "\<dots> \<le> 2 ^ 9 / 2 ^ 53 + 255 / 2 ^ 53 + 9 / 20" using e2 y1 near by linarith
  also have "\<dots> < 1 / 2" by simp
  finally show ?thesis unfolding y_def by (rule RoundNearest_near)
qed

lemma channel_round_trip:
  assumes r: "double_rounding r" and n: "n \<le> 255"
  shows "RoundNearest (r (r (real n / 255) * 255)) = int n"
proof (cases "n = 0")
  case True
  then show ?thesis using r by (simp add: RoundNearest_def)
next
  case False
  then have "1 \<le> real n" by simp
  then have "1 / 2 ^ 10 \<le> real n / 255" by simp
  moreover have "real n / 255 \<le> 1" using n by simp
  moreover have "\<bar>real n / 255 * 255 - real n\<bar> \<le> 9 / 20" by simp
  ultimately show ?thesis using r by (rule RoundNearest_scaled [rotated])
qed

section \<open>Colour conversion\<close>

lemma argb_Color_of: "argb (Color_of w) = w"
proof (rule bit_word_eqI)
  fix n assume n: "n < LENGTH(32)"
  consider "n < 8" | "8 \<le> n" "n < 16" | "16 \<le> n" "n < 24" | "24 \<le> n"
    by linarith
  then show "bit (argb (Color_of w)) n = bit w n"
  proof cases
    case 1 then show ?thesis by (simp add: argb_def Color_of_def bit_simps)
  next
    case 2 then show ?thesis using n by (auto simp: argb_def Color_of_def bit_simps)
  next
    case 3 then show ?thesis using n by (auto simp: argb_def Color_of_def bit_simps)
  next
    case 4 then show ?thesis using n by (auto simp: argb_def Color_of_def bit_simps)
  qed
qed

lemma mask8: "(0xff :: u32) = mask 8"
  by (simp add: mask_eq_exp_minus_1)

lemma ucast_low_byte: "(ucast (w AND (0xff::u32)) :: u8) = ucast w"
  unfolding mask8 by (rule bit_word_eqI) (auto simp: bit_simps)

lemma unat_low_byte: "unat (w AND (0xff::u32)) \<le> 255"
proof -
  have "unat (w AND 0xff) \<le> unat (0xff :: u32)"
    by (rule word_and_le1 [THEN word_le_nat_alt [THEN iffD1]])
  then show ?thesis by simp
qed

lemma GetColor_channel:
  assumes "double_rounding (fl D)"
  shows "(ucast (RoundDoubleToUInt32 (fl D (fl D (real (unat (w AND (0xff::u32))) / 255) * 255))) :: u8)
    = ucast w"
proof -
  have "RoundNearest (fl D (fl D (real (unat (w AND 0xff)) / 255) * 255)) = int (unat (w AND 0xff))"
    using assms unat_low_byte by (rule channel_round_trip)
  then have "RoundDoubleToUInt32 (fl D (fl D (real (unat (w AND 0xff)) / 255) * 255)) = w AND 0xff"
    by (simp add: RoundDoubleToUInt32_def)
  then show ?thesis by (simp only: ucast_low_byte)
qed

text \<open>
  C4: for every 32-bit packed colour \<open>c\<close>, converting it to a normalised colour and back
  yields \<open>c\<close>: each channel of \<open>GetColor (GetDoubleColor c)\<close> is the channel of \<open>c\<close>, and
  the packed word is \<open>c\<close> itself. The division and the multiplication by 255 are rounded
  to doubles.
\<close>

theorem GetColor_GetDoubleColor:
  assumes "double_rounding (fl D)"
  shows "GetColor D (GetDoubleColor D c) = Color_of c \<and> argb (GetColor D (GetDoubleColor D c)) = c"
proof -
  note ch = GetColor_channel [OF assms]
  have "GetColor D (GetDoubleColor D c) = Color_of c"
    unfolding GetColor_def GetDoubleColor_def Color_of_def
    using ch [of "drop_bit 24 c"] ch [of "drop_bit 16 c"] ch [of "drop_bit 8 c"] ch [of "drop_bit 0 c"]
    by (simp del: of_nat_unat)
  then show ?thesis by (simp add: argb_Color_of)
qed

theorem GetColor_GetDoubleColor_witness:
  "argb (GetColor sample_decls (GetDoubleColor sample_decls 0x80FF00C7)) = 0x80FF00C7"
proof -
  have "double_rounding (fl sample_decls)"
    by (simp add: sample_decls_def double_rounding_exact)
  from GetColor_GetDoubleColor [OF this, of "0x80FF00C7"] show ?thesis by blast
qed

section \<open>Compositing\<close>

lemma unat_u8_bound: "unat (w :: u8) \<le> 255"
  using unsigned_less [of w, where ?'a = nat] by auto

lemma DoubleToUInt8_unat: "DoubleToUInt8 (real (unat (w::u8))) = w"
proof -
  have "\<lfloor>real (unat w)\<rfloor> = int (unat w)" by (rule floor_of_nat)
  moreover have "0 \<le> real (unat w)" by (rule of_nat_0_le_iff)
  ultimately show ?thesis by (simp add: DoubleToUInt8_def)
qed

lemma DoubleToUInt8_floor:
  assumes "0 \<le> v" "v < 256"
  shows "int (unat (DoubleToUInt8 v)) = \<lfloor>v\<rfloor>"
proof -
  have f: "0 \<le> \<lfloor>v\<rfloor>" "\<lfloor>v\<rfloor> < 256" using assms by (auto simp: floor_less_iff)
  have "int (unat (DoubleToUInt8 v)) = uint (word_of_int \<lfloor>v\<rfloor> :: u8)"
    using assms by (simp add: DoubleToUInt8_def)
  also have "\<dots> = \<lfloor>v\<rfloor>" using f by (simp add: uint_word_of_int)
  finally show ?thesis .
qed

lemma fl_diff:
  assumes "double_rounding r" "s \<le> 255" "d \<le> 255"
  shows "r (real s - real d) = real s - real d"
proof -
  have "\<bar>int s - int d\<bar> \<le> 2 ^ 53" using assms(2,3) by simp
  from fl_int [OF assms(1) this] show ?thesis by simp
qed

lemma fl_byte:
  assumes "double_rounding r" "s \<le> 255"
  shows "r (real s) = real s"
  using fl_diff [OF assms, of 0] by simp

lemma Lerp_opaque:
  assumes "double_rounding (fl D)" "s \<le> 255" "d \<le> 255"
  shows "Lerp D (real s) (real d) 1 = real s"
  using assms by (simp add: Lerp_def fl_diff fl_byte)

lemma Composite_opaque:
  assumes "double_rounding (fl D)" "Color_a src = 255"
  shows "Composite D src dst = src"
proof -
  have "fl D (real (unat (255::u8)) / 255) = 1" using assms(1) by simp
  then show ?thesis
    using assms(2)
    by (cases src)
      (simp add: Composite_def Lerp_opaque [OF assms(1)] unat_u8_bound DoubleToUInt8_unat
        del: of_nat_unat)
qed

text \<open>
  The exact value of the blend is a multiple of \<open>1 / 255\<close> between 0 and 255, and it is
  0 only where the computation in doubles is exact.
\<close>

lemma blend_multiple:
  assumes "a \<le> 255" "s \<le> 255" "d \<le> 255"
  shows "real d + real a / 255 * (real s - real d) = real ((255 - a) * d + a * s) / 255"
    and "(255 - a) * d + a * s \<le> 65025"
proof -
  have "real (255 - a) = 255 - real a" using assms(1) by (simp add: of_nat_diff)
  then show "real d + real a / 255 * (real s - real d) = real ((255 - a) * d + a * s) / 255"
    by (simp add: field_simps)
  have "(255 - a) * d \<le> (255 - a) * 255" using assms(3) by (rule mult_le_mono2)
  moreover have "a * s \<le> a * 255" using assms(2) by (rule mult_le_mono2)
  ultimately have "(255 - a) * d + a * s \<le> (255 - a) * 255 + a * 255" by linarith
  also have "\<dots> = 65025" using assms(1) by (simp add: algebra_simps flip: add_mult_distrib)
  finally show "(255 - a) * d + a * s \<le> 65025" .
qed

text \<open>
  The blend computed in doubles: between 0 and 256, and within \<open>2 ^ -40\<close> of the exact
  value.
\<close>

lemma Lerp_error:
  assumes r: "double_rounding (fl D)" and b: "a \<le> 255" "s \<le> 255" "d \<le> 255"
  shows "0 \<le> Lerp D (real s) (real d) (fl D (real a / 255))
    \<and> Lerp D (real s) (real d) (fl D (real a / 255)) < 256
    \<and> \<bar>Lerp D (real s) (real d) (fl D (real a / 255))
         - (real d + real a / 255 * (real s - real d))\<bar> \<le> 1 / 2 ^ 40"
proof -
  define q where "q = real a / 255"
  define p where "p = fl D q"
  define m where "m = real s - real d"
  define v where "v = real d + q * m"
  define N where "N = (255 - a) * d + a * s"
  have fm: "fl D m = m" unfolding m_def using fl_diff [OF r b(2) b(3)] .
  have L: "Lerp D (real s) (real d) p = fl D (real d + fl D (p * m))"
    by (simp add: Lerp_def fm m_def [symmetric])
  have vN: "v = real N / 255" and N: "N \<le> 65025"
    unfolding v_def q_def m_def N_def using blend_multiple [OF b] by simp_all
  have v0: "0 \<le> v" and v255: "v \<le> 255" using vN N by simp_all
  have goal: "0 \<le> fl D (real d + fl D (p * m)) \<and> fl D (real d + fl D (p * m)) < 256
      \<and> \<bar>fl D (real d + fl D (p * m)) - v\<bar> \<le> 1 / 2 ^ 40"
  proof (cases "a = 0 \<or> s = d")
    case True
    then have pm: "p * m = 0" unfolding p_def q_def m_def using r by auto
    have qm: "q * m = 0" using True unfolding q_def m_def by auto
    have "fl D (real d + fl D (p * m)) = real d"
      unfolding pm using r b by (simp add: fl_byte)
    then show ?thesis unfolding v_def qm using b by simp
  next
    case False
    then have a: "1 \<le> a" and sd: "s \<noteq> d" by auto
    have q: "1 / 255 \<le> q" "q \<le> 1" unfolding q_def using a b by simp_all
    have ep: "\<bar>p - q\<bar> \<le> 1 / 2 ^ 53"
    proof -
      have "\<bar>p - q\<bar> \<le> \<bar>q\<bar> / 2 ^ 53" unfolding p_def using q by (intro fl_error [OF r]) simp_all
      also have "\<dots> \<le> 1 / 2 ^ 53" using q by (simp add: divide_right_mono)
      finally show ?thesis .
    qed
    have m1: "1 \<le> \<bar>m\<bar>" and m255: "\<bar>m\<bar> \<le> 255"
      unfolding m_def using sd b by (simp_all add: abs_if)
    have qm: "1 / 255 \<le> \<bar>q * m\<bar>" "\<bar>q * m\<bar> \<le> 255"
    proof -
      have e: "\<bar>q * m\<bar> = q * \<bar>m\<bar>" using q by (simp add: abs_mult)
      have "1 / 255 * 1 \<le> q * \<bar>m\<bar>" using q m1 by (intro mult_mono) simp_all
      then show "1 / 255 \<le> \<bar>q * m\<bar>" unfolding e by simp
      have "q * \<bar>m\<bar> \<le> 1 * 255" using q m255 by (intro mult_mono) simp_all
      then show "\<bar>q * m\<bar> \<le> 255" unfolding e by simp
    qed
    have e1: "\<bar>p * m - q * m\<bar> \<le> 255 / 2 ^ 53"
    proof -
      have "\<bar>p * m - q * m\<bar> = \<bar>p - q\<bar> * \<bar>m\<bar>" by (simp add: abs_mult flip: left_diff_distrib)
      also have "\<dots> \<le> 1 / 2 ^ 53 * 255" using ep m255 by (intro mult_mono) simp_all
      finally show ?thesis by simp
    qed
    have t1: "1 / 2 ^ 10 \<le> \<bar>p * m\<bar>" "\<bar>p * m\<bar> \<le> 2 ^ 9"
    proof -
      have c: "(255::real) / 2 ^ 53 \<le> 1 / 2048" by simp
      have e: "\<bar>p * m - q * m\<bar> \<le> 1 / 2048" using e1 c by linarith
      have "1 / 255 - 1 / 2048 \<le> \<bar>p * m\<bar>" using e qm(1) by linarith
      then show "1 / 2 ^ 10 \<le> \<bar>p * m\<bar>" by simp
      have "\<bar>p * m\<bar> \<le> 255 + 1 / 2048" using e qm(2) by linarith
      then show "\<bar>p * m\<bar> \<le> 2 ^ 9" by simp
    qed
    have e2: "\<bar>fl D (p * m) - p * m\<bar> \<le> 2 ^ 9 / 2 ^ 53"
    proof -
      have "\<bar>fl D (p * m) - p * m\<bar> \<le> \<bar>p * m\<bar> / 2 ^ 53" using t1 by (intro fl_error [OF r]) simp_all
      also have "\<dots> \<le> 2 ^ 9 / 2 ^ 53" using t1 by (simp add: divide_right_mono)
      finally show ?thesis .
    qed
    define v1 where "v1 = real d + fl D (p * m)"
    have e3: "\<bar>v1 - v\<bar> \<le> 1 / 2 ^ 43"
    proof -
      have c: "(2::real) ^ 9 / 2 ^ 53 + 255 / 2 ^ 53 \<le> 1 / 2 ^ 43" by simp
      have "\<bar>v1 - v\<bar> \<le> 2 ^ 9 / 2 ^ 53 + 255 / 2 ^ 53"
        unfolding v1_def v_def using e1 e2 by linarith
      then show ?thesis using c by linarith
    qed
    show ?thesis
    proof (cases "N = 0")
      case True
      then have "a * s = 0" "(255 - a) * d = 0" unfolding N_def by simp_all
      then have s0: "s = 0" and a255: "a = 255" using a sd b by auto
      have "p = 1" unfolding p_def q_def a255 using r by simp
      moreover have "m = - real d" unfolding m_def s0 by simp
      moreover have "fl D (- real d) = - real d" using fl_diff [OF r, of 0 d] b by simp
      moreover have "v = 0" using vN True by simp
      ultimately show ?thesis using r by simp
    next
      case False
      then have "1 \<le> real N" by simp
      then have vlo: "1 / 255 \<le> v" unfolding vN by (simp add: divide_right_mono)
      have v1: "1 / 2 ^ 10 \<le> v1" "v1 \<le> 511 / 2"
      proof -
        have c: "(1::real) / 2 ^ 43 \<le> 1 / 2048" by simp
        have e: "\<bar>v1 - v\<bar> \<le> 1 / 2048" using e3 c by linarith
        have "1 / 255 - 1 / 2048 \<le> v1" using e vlo by linarith
        then show "1 / 2 ^ 10 \<le> v1" by simp
        show "v1 \<le> 511 / 2" using e v255 by linarith
      qed
      have e4: "\<bar>fl D v1 - v1\<bar> \<le> 2 ^ 8 / 2 ^ 53"
      proof -
        have "\<bar>fl D v1 - v1\<bar> \<le> \<bar>v1\<bar> / 2 ^ 53" using v1 by (intro fl_error [OF r]) simp_all
        also have "\<dots> \<le> 2 ^ 8 / 2 ^ 53" using v1 by (simp add: divide_right_mono)
        finally show ?thesis .
      qed
      have c: "(2::real) ^ 8 / 2 ^ 53 = 1 / 2 ^ 45" by simp
      have e4': "\<bar>fl D v1 - v1\<bar> \<le> 1 / 2 ^ 45" using e4 unfolding c .
      have "\<bar>fl D v1 - v\<bar> \<le> 1 / 2 ^ 43 + 1 / 2 ^ 45" using e3 e4' by linarith
      then have "\<bar>fl D v1 - v\<bar> \<le> 1 / 2 ^ 40" by simp
      moreover have w: "v1 - 1 / 2 ^ 45 \<le> fl D v1" "fl D v1 \<le> v1 + 1 / 2 ^ 45"
        using e4' by linarith+
      moreover have "0 \<le> fl D v1" using w(1) v1(1) by simp
      moreover have "fl D v1 < 256" using w(2) v1(2) by simp
      ultimately show ?thesis unfolding v1_def by blast
    qed
  qed
  have "0 \<le> Lerp D (real s) (real d) p \<and> Lerp D (real s) (real d) p < 256
      \<and> \<bar>Lerp D (real s) (real d) p - v\<bar> \<le> 1 / 2 ^ 40"
    unfolding L by (fact goal)
  then show ?thesis unfolding p_def q_def v_def m_def .
qed

text \<open>
  Discarding the fraction of a value within \<open>2 ^ -40\<close> of a multiple of \<open>1 / 255\<close> gives
  an integer that is at most the multiple and at least the multiple minus 1.
\<close>

lemma floor_near_multiple:
  assumes "\<bar>w - real N / 255\<bar> \<le> 1 / 2 ^ 40"
  shows "real_of_int \<lfloor>w\<rfloor> \<le> real N / 255" and "real N / 255 \<le> real_of_int \<lfloor>w\<rfloor> + 1"
proof -
  define c where "c = \<lfloor>w\<rfloor>"
  have cw: "real_of_int c \<le> w" "w < real_of_int c + 1" unfolding c_def by linarith+
  have k: "(1::real) / 2 ^ 40 < 1 / 255" by simp
  show "real_of_int c \<le> real N / 255"
  proof (rule ccontr)
    assume "\<not> real_of_int c \<le> real N / 255"
    then have "real N < real_of_int (255 * c)" by simp
    then have "int N < 255 * c" by linarith
    then have "int N + 1 \<le> 255 * c" by simp
    then have "real_of_int (int N + 1) \<le> real_of_int (255 * c)" by (simp only: of_int_le_iff)
    then have "real N / 255 + 1 / 255 \<le> real_of_int c" by simp
    then show False using cw assms k by linarith
  qed
  show "real N / 255 \<le> real_of_int c + 1"
  proof (rule ccontr)
    assume "\<not> real N / 255 \<le> real_of_int c + 1"
    then have "real_of_int (255 * (c + 1)) < real N" by simp
    then have "255 * (c + 1) < int N" by linarith
    then have "255 * (c + 1) + 1 \<le> int N" by simp
    then have "real_of_int (255 * (c + 1) + 1) \<le> real_of_int (int N)" by (simp only: of_int_le_iff)
    then have "real_of_int c + 1 + 1 / 255 \<le> real N / 255" by simp
    then show False using cw assms k by linarith
  qed
qed

lemma Composite_channel:
  assumes r: "double_rounding (fl D)"
  shows "real (unat (DoubleToUInt8 (Lerp D (real (unat (s::u8))) (real (unat (d::u8)))
            (fl D (real (unat (a::u8)) / 255))))) \<le> blend a s d
    \<and> blend a s d \<le> real (unat (DoubleToUInt8 (Lerp D (real (unat s)) (real (unat d))
            (fl D (real (unat a) / 255))))) + 1"
proof -
  let ?w = "Lerp D (real (unat s)) (real (unat d)) (fl D (real (unat a) / 255))"
  let ?N = "(255 - unat a) * unat d + unat a * unat s"
  note b = unat_u8_bound [of a] unat_u8_bound [of s] unat_u8_bound [of d]
  have w: "0 \<le> ?w" "?w < 256"
    and e: "\<bar>?w - (real (unat d) + real (unat a) / 255 * (real (unat s) - real (unat d)))\<bar> \<le> 1 / 2 ^ 40"
    using Lerp_error [OF r b] by blast+
  have bl: "blend a s d = real ?N / 255"
    unfolding blend_def using blend_multiple(1) [OF b] .
  have "\<bar>?w - real ?N / 255\<bar> \<le> 1 / 2 ^ 40" using e unfolding blend_multiple(1) [OF b] .
  from floor_near_multiple [OF this]
  have "real_of_int \<lfloor>?w\<rfloor> \<le> blend a s d" "blend a s d \<le> real_of_int \<lfloor>?w\<rfloor> + 1"
    unfolding bl by blast+
  moreover have "real (unat (DoubleToUInt8 ?w)) = real_of_int \<lfloor>?w\<rfloor>"
    using DoubleToUInt8_floor [OF w] by (metis of_int_of_nat_eq)
  ultimately show ?thesis by simp
qed

text \<open>
  C3, as amended: for all colours \<open>src\<close> and \<open>dst\<close>, the alpha of \<open>Composite src dst\<close> is the
  alpha of \<open>src\<close>, and each of its red, green and blue channels is an integer \<open>c\<close> with
  \<open>v - 1 \<le> c \<le> v\<close> for \<open>v = dst.channel + (src.alpha / 255) \<times> (src.channel - dst.channel)\<close>:
  the blend is computed in doubles and the conversion to the 8-bit channel discards its
  fraction. When \<open>src.alpha = 255\<close> the result is \<open>src\<close>, for every \<open>dst\<close>.
\<close>

theorem Composite_channels:
  assumes "double_rounding (fl D)"
  shows "Color_a (Composite D src dst) = Color_a src
   \<and> real (unat (Color_r (Composite D src dst))) \<le> blend (Color_a src) (Color_r src) (Color_r dst)
   \<and> blend (Color_a src) (Color_r src) (Color_r dst) \<le> real (unat (Color_r (Composite D src dst))) + 1
   \<and> real (unat (Color_g (Composite D src dst))) \<le> blend (Color_a src) (Color_g src) (Color_g dst)
   \<and> blend (Color_a src) (Color_g src) (Color_g dst) \<le> real (unat (Color_g (Composite D src dst))) + 1
   \<and> real (unat (Color_b (Composite D src dst))) \<le> blend (Color_a src) (Color_b src) (Color_b dst)
   \<and> blend (Color_a src) (Color_b src) (Color_b dst) \<le> real (unat (Color_b (Composite D src dst))) + 1
   \<and> (Color_a src = 255 \<longrightarrow> Composite D src dst = src)"
proof -
  note ch = Composite_channel [OF assms, where a = "Color_a src"]
  have a: "Color_a (Composite D src dst) = Color_a src"
    by (simp add: Composite_def Let_def)
  have r: "real (unat (Color_r (Composite D src dst))) \<le> blend (Color_a src) (Color_r src) (Color_r dst)
      \<and> blend (Color_a src) (Color_r src) (Color_r dst) \<le> real (unat (Color_r (Composite D src dst))) + 1"
    using ch [where s = "Color_r src" and d = "Color_r dst"] by (simp add: Composite_def Let_def del: of_nat_unat)
  have g: "real (unat (Color_g (Composite D src dst))) \<le> blend (Color_a src) (Color_g src) (Color_g dst)
      \<and> blend (Color_a src) (Color_g src) (Color_g dst) \<le> real (unat (Color_g (Composite D src dst))) + 1"
    using ch [where s = "Color_g src" and d = "Color_g dst"] by (simp add: Composite_def Let_def del: of_nat_unat)
  have b: "real (unat (Color_b (Composite D src dst))) \<le> blend (Color_a src) (Color_b src) (Color_b dst)
      \<and> blend (Color_a src) (Color_b src) (Color_b dst) \<le> real (unat (Color_b (Composite D src dst))) + 1"
    using ch [where s = "Color_b src" and d = "Color_b dst"] by (simp add: Composite_def Let_def del: of_nat_unat)
  have o: "Color_a src = 255 \<longrightarrow> Composite D src dst = src"
    using assms by (auto intro: Composite_opaque)
  show ?thesis using a r g b o by blast
qed

theorem Composite_channels_witness:
  "Composite sample_decls \<lparr>Color_a = 255, Color_r = 10, Color_g = 20, Color_b = 30\<rparr>
             \<lparr>Color_a = 7, Color_r = 200, Color_g = 100, Color_b = 50\<rparr>
   = \<lparr>Color_a = 255, Color_r = 10, Color_g = 20, Color_b = 30\<rparr>"
proof -
  have "double_rounding (fl sample_decls)"
    by (simp add: sample_decls_def double_rounding_exact)
  from Composite_channels [OF this, of "\<lparr>Color_a = 255, Color_r = 10, Color_g = 20, Color_b = 30\<rparr>"
     "\<lparr>Color_a = 7, Color_r = 200, Color_g = 100, Color_b = 50\<rparr>"]
  show ?thesis by simp
qed

text \<open>
  C3 as stated fails: with \<open>src.alpha = 1\<close>, \<open>src.red = 1\<close> and \<open>dst.red = 0\<close> the formula
  gives \<open>1 / 255\<close>, and the red channel of the result is \<open>0\<close>.
\<close>

theorem Composite_not_exact:
  "real (unat (Color_r (Composite sample_decls \<lparr>Color_a = 1, Color_r = 1, Color_g = 0, Color_b = 0\<rparr>
                                  \<lparr>Color_a = 0, Color_r = 0, Color_g = 0, Color_b = 0\<rparr>)))
   \<noteq> blend 1 1 0"
  by (simp add: Composite_def Lerp_def DoubleToUInt8_def sample_decls_def blend_def)

lemma GetColor_background:
  assumes "double_rounding (fl D)"
  shows "GetColor D (background D) = \<lparr>Color_a = 255, Color_r = 3, Color_g = 5, Color_b = 13\<rparr>"
proof -
  have a: "fl D 255 = 255" using fl_int [OF assms, of 255] by simp
  have r: "RoundNearest (fl D (fl D 0.01 * 255)) = int 3"
    by (rule RoundNearest_scaled [OF assms]) simp_all
  have g: "RoundNearest (fl D (fl D 0.02 * 255)) = int 5"
    by (rule RoundNearest_scaled [OF assms]) simp_all
  have b: "RoundNearest (fl D (fl D 0.05 * 255)) = int 13"
    by (rule RoundNearest_scaled [OF assms]) simp_all
  show ?thesis
    using a r g b
    by (simp add: GetColor_def background_def RoundDoubleToUInt32_def RoundNearest_of_int [of 255, simplified])
qed

section \<open>The rectangle fill\<close>


lemma FillPixel_written: "written (FillPixel D c bm p) = p # written bm"
  by (simp add: FillPixel_def store32_def Let_def)

lemma FillPixel_cells_other: "a \<noteq> p \<Longrightarrow> cells (FillPixel D c bm p) a = cells bm a"
  by (simp add: FillPixel_def store32_def Let_def)

lemma FillRect_row_empty: "maxX \<le> x \<Longrightarrow> FillRect_row D c maxX x p bm = bm"
  by (simp add: FillRect_row.simps [of D c maxX x p bm])

lemma FillRect_row_effect:
  "\<exists>ws. written (FillRect_row D c maxX x p bm) = ws @ written bm
        \<and> set ws = {p + 4 * k | k. 0 \<le> k \<and> k < maxX - x}
        \<and> (\<forall>a. a \<notin> set ws \<longrightarrow> cells (FillRect_row D c maxX x p bm) a = cells bm a)"
proof (induction D c maxX x p bm rule: FillRect_row.induct)
  case (1 D c maxX x p bm)
  show ?case
  proof (cases "x < maxX")
    case False
    then have "FillRect_row D c maxX x p bm = bm" by (simp add: FillRect_row_empty)
    moreover have "{p + 4 * k | k. 0 \<le> k \<and> k < maxX - x} = {}" using False by auto
    ultimately show ?thesis by simp
  next
    case True
    let ?bm1 = "FillPixel D c bm p"
    let ?r = "FillRect_row D c maxX (x + 1) (p + 4) ?bm1"
    have r: "FillRect_row D c maxX x p bm = ?r"
      using True by (simp add: FillRect_row.simps [of D c maxX x p bm])
    from "1.IH" [OF True] obtain ws where
      w: "written ?r = ws @ written ?bm1" and
      s: "set ws = {p + 4 + 4 * k | k. 0 \<le> k \<and> k < maxX - (x + 1)}" and
      c: "\<forall>a. a \<notin> set ws \<longrightarrow> cells ?r a = cells ?bm1 a"
      by blast
    have w': "written ?r = (ws @ [p]) @ written bm"
      using w by (simp add: FillPixel_written)
    have s': "set (ws @ [p]) = {p + 4 * k | k. 0 \<le> k \<and> k < maxX - x}"
    proof (rule set_eqI)
      fix a
      show "a \<in> set (ws @ [p]) \<longleftrightarrow> a \<in> {p + 4 * k | k. 0 \<le> k \<and> k < maxX - x}"
      proof
        assume "a \<in> set (ws @ [p])"
        then consider "a = p" | "a \<in> set ws" by auto
        then show "a \<in> {p + 4 * k | k. 0 \<le> k \<and> k < maxX - x}"
        proof cases
          case 1
          then have "a = p + 4 * 0 \<and> (0::int) \<le> 0 \<and> 0 < maxX - x" using True by simp
          then show ?thesis by blast
        next
          case 2
          then obtain k where "a = p + 4 + 4 * k" "0 \<le> k" "k < maxX - (x + 1)"
            using s by auto
          then have "a = p + 4 * (k + 1) \<and> 0 \<le> k + 1 \<and> k + 1 < maxX - x" by simp
          then show ?thesis by blast
        qed
      next
        assume "a \<in> {p + 4 * k | k. 0 \<le> k \<and> k < maxX - x}"
        then obtain k where k: "a = p + 4 * k" "0 \<le> k" "k < maxX - x" by auto
        show "a \<in> set (ws @ [p])"
        proof (cases "k = 0")
          case True
          then show ?thesis using k by simp
        next
          case False
          then have "a = p + 4 + 4 * (k - 1) \<and> 0 \<le> k - 1 \<and> k - 1 < maxX - (x + 1)"
            using k by simp
          then have "a \<in> set ws" unfolding s by blast
          then show ?thesis by simp
        qed
      qed
    qed
    have c': "\<forall>a. a \<notin> set (ws @ [p]) \<longrightarrow> cells ?r a = cells bm a"
      using c by (simp add: FillPixel_cells_other)
    show ?thesis unfolding r using w' s' c' by blast
  qed
qed

lemma FillRect_rows_empty_y:
  "maxY \<le> y \<Longrightarrow> FillRect_rows D buffer c minX maxX maxY y row bm = bm"
  by (simp add: FillRect_rows.simps [of D buffer c minX maxX maxY y row bm])

lemma FillRect_rows_empty_x:
  "maxX \<le> minX \<Longrightarrow> FillRect_rows D buffer c minX maxX maxY y row bm = bm"
proof (induction D buffer c minX maxX maxY y row bm rule: FillRect_rows.induct)
  case (1 D buffer c minX maxX maxY y row bm)
  then show ?case
    by (simp add: FillRect_rows.simps [of D buffer c minX maxX maxY y row bm] FillRect_row_empty)
qed

lemma FillRect_rows_effect:
  "\<exists>ws. written (FillRect_rows D buffer c minX maxX maxY y row bm) = ws @ written bm
        \<and> set ws = {row + j * pitch buffer + 4 * k | j k. 0 \<le> j \<and> j < maxY - y \<and> 0 \<le> k \<and> k < maxX - minX}
        \<and> (\<forall>a. a \<notin> set ws \<longrightarrow> cells (FillRect_rows D buffer c minX maxX maxY y row bm) a = cells bm a)"
proof (induction D buffer c minX maxX maxY y row bm rule: FillRect_rows.induct)
  case (1 D buffer c minX maxX maxY y row bm)
  show ?case
  proof (cases "y < maxY")
    case False
    then have "FillRect_rows D buffer c minX maxX maxY y row bm = bm"
      by (simp add: FillRect_rows_empty_y)
    moreover have "{row + j * pitch buffer + 4 * k | j k. 0 \<le> j \<and> j < maxY - y \<and> 0 \<le> k \<and> k < maxX - minX} = {}"
      using False by auto
    ultimately show ?thesis by simp
  next
    case True
    let ?bm1 = "FillRect_row D c maxX minX row bm"
    let ?r = "FillRect_rows D buffer c minX maxX maxY (y + 1) (row + pitch buffer) ?bm1"
    have r: "FillRect_rows D buffer c minX maxX maxY y row bm = ?r"
      using True by (simp add: FillRect_rows.simps [of D buffer c minX maxX maxY y row bm])
    obtain ws1 where
      w1: "written ?bm1 = ws1 @ written bm" and
      s1: "set ws1 = {row + 4 * k | k. 0 \<le> k \<and> k < maxX - minX}" and
      c1: "\<forall>a. a \<notin> set ws1 \<longrightarrow> cells ?bm1 a = cells bm a"
      using FillRect_row_effect [of D c maxX minX row bm] by blast
    from "1.IH" [OF True] obtain ws where
      w: "written ?r = ws @ written ?bm1" and
      s: "set ws = {row + pitch buffer + j * pitch buffer + 4 * k | j k.
                     0 \<le> j \<and> j < maxY - (y + 1) \<and> 0 \<le> k \<and> k < maxX - minX}" and
      c: "\<forall>a. a \<notin> set ws \<longrightarrow> cells ?r a = cells ?bm1 a"
      by blast
    have w': "written ?r = (ws @ ws1) @ written bm" using w w1 by simp
    have s': "set (ws @ ws1) = {row + j * pitch buffer + 4 * k | j k. 0 \<le> j \<and> j < maxY - y \<and> 0 \<le> k \<and> k < maxX - minX}"
      (is "_ = ?S")
    proof (rule set_eqI)
      fix a
      show "a \<in> set (ws @ ws1) \<longleftrightarrow> a \<in> ?S"
      proof
        assume "a \<in> set (ws @ ws1)"
        then consider "a \<in> set ws1" | "a \<in> set ws" by auto
        then show "a \<in> ?S"
        proof cases
          case 1
          then obtain k where "a = row + 4 * k" "0 \<le> k" "k < maxX - minX" using s1 by auto
          then have "a = row + 0 * pitch buffer + 4 * k \<and> (0::int) \<le> 0 \<and> 0 < maxY - y \<and> 0 \<le> k \<and> k < maxX - minX"
            using True by simp
          then show ?thesis by blast
        next
          case 2
          then obtain j k where "a = row + pitch buffer + j * pitch buffer + 4 * k"
            "0 \<le> j" "j < maxY - (y + 1)" "0 \<le> k" "k < maxX - minX" using s by auto
          then have "a = row + (j + 1) * pitch buffer + 4 * k \<and> 0 \<le> j + 1 \<and> j + 1 < maxY - y \<and> 0 \<le> k \<and> k < maxX - minX"
            by (simp add: algebra_simps)
          then show ?thesis by blast
        qed
      next
        assume "a \<in> ?S"
        then obtain j k where jk: "a = row + j * pitch buffer + 4 * k" "0 \<le> j" "j < maxY - y"
          "0 \<le> k" "k < maxX - minX" by auto
        show "a \<in> set (ws @ ws1)"
        proof (cases "j = 0")
          case True
          then have "a \<in> set ws1" unfolding s1 using jk by auto
          then show ?thesis by simp
        next
          case False
          then have "a = row + pitch buffer + (j - 1) * pitch buffer + 4 * k \<and> 0 \<le> j - 1
              \<and> j - 1 < maxY - (y + 1) \<and> 0 \<le> k \<and> k < maxX - minX"
            using jk by (simp add: algebra_simps)
          then have "a \<in> set ws" unfolding s by blast
          then show ?thesis by simp
        qed
      qed
    qed
    have c': "\<forall>a. a \<notin> set (ws @ ws1) \<longrightarrow> cells ?r a = cells bm a"
      using c c1 by simp
    show ?thesis unfolding r using w' s' c' by blast
  qed
qed



lemma RoundDoubleToInt32_sint:
  "rounds_to_int32 v \<Longrightarrow> sint (RoundDoubleToInt32 D v) = RoundNearest v"
  by (simp add: RoundDoubleToInt32_def rounds_to_int32_def sint_sbintrunc'
      signed_take_bit_int_eq_self)

lemma rounds_to_int32_of_int:
  "- (2 ^ 31) \<le> n \<Longrightarrow> n < 2 ^ 31 \<Longrightarrow> rounds_to_int32 (real_of_int n)"
  by (simp add: rounds_to_int32_def RoundNearest_of_int)

lemma FillRect_unfold:
  "FillRect D buffer x0 y0 x1 y1 c =
     buffer\<lparr>bitmap := FillRect_rows D buffer c (max 0 (sint (RoundDoubleToInt32 D x0)))
        (min (width buffer) (sint (RoundDoubleToInt32 D x1)))
        (min (height buffer) (sint (RoundDoubleToInt32 D y1)))
        (max 0 (sint (RoundDoubleToInt32 D y0)))
        (GetPixel buffer (max 0 (sint (RoundDoubleToInt32 D x0)))
           (max 0 (sint (RoundDoubleToInt32 D y0)))) (bitmap buffer)\<rparr>"
  by (simp add: FillRect_def Let_def Min_int_def max_def min_def)







lemma FillPixel_opaque:
  assumes r: "double_rounding (fl D)" and a: "Color_a c = 255"
  shows "FillPixel D c bm p = store32 bm p (argb c)"
proof -
  have "Composite D c d = c" for d using r a by (rule Composite_opaque)
  then show ?thesis using a by (simp add: FillPixel_def Let_def)
qed

lemma FillRect_row_const:
  "\<forall>bm p. cells (FillPixel D c bm p) p = v \<Longrightarrow> 0 \<le> k \<Longrightarrow> k < maxX - x \<Longrightarrow>
     cells (FillRect_row D c maxX x p bm) (p + 4 * k) = v"
proof (induction D c maxX x p bm arbitrary: k rule: FillRect_row.induct)
  case (1 D c maxX x p bm)
  note assms = "1.prems"(1)
  have lt: "x < maxX" using "1.prems" by linarith
  let ?bm1 = "FillPixel D c bm p"
  let ?r = "FillRect_row D c maxX (x + 1) (p + 4) ?bm1"
  have r: "FillRect_row D c maxX x p bm = ?r"
    using lt by (simp add: FillRect_row.simps [of D c maxX x p bm])
  show ?case
  proof (cases "k = 0")
    case True
    obtain ws where
      s: "set ws = {p + 4 + 4 * k | k. 0 \<le> k \<and> k < maxX - (x + 1)}" and
      c: "\<forall>a. a \<notin> set ws \<longrightarrow> cells ?r a = cells ?bm1 a"
      using FillRect_row_effect [of D c maxX "x + 1" "p + 4" ?bm1] by blast
    have "p \<notin> set ws" unfolding s by auto
    then have "cells ?r p = cells ?bm1 p" using c by blast
    then show ?thesis unfolding r using True assms by simp
  next
    case False
    then have "0 \<le> k - 1" "k - 1 < maxX - (x + 1)" using "1.prems" by linarith+
    from "1.IH" [OF lt assms this] have "cells ?r (p + 4 + 4 * (k - 1)) = v" .
    moreover have "p + 4 + 4 * (k - 1) = p + 4 * k" by simp
    ultimately show ?thesis unfolding r by simp
  qed
qed

lemma FillRect_rows_const:
  "\<forall>bm p. cells (FillPixel D c bm p) p = v \<Longrightarrow>
    0 \<le> j \<Longrightarrow> j < maxY - y \<Longrightarrow> 0 \<le> k \<Longrightarrow> k < maxX - minX \<Longrightarrow>
    cells (FillRect_rows D buffer c minX maxX maxY y row bm) (row + j * pitch buffer + 4 * k) = v"
proof (induction D buffer c minX maxX maxY y row bm arbitrary: j k rule: FillRect_rows.induct)
  case (1 D buffer c minX maxX maxY y row bm)
  note assms = "1.prems"(1)
  have lt: "y < maxY" using "1.prems" by linarith
  let ?bm1 = "FillRect_row D c maxX minX row bm"
  let ?r = "FillRect_rows D buffer c minX maxX maxY (y + 1) (row + pitch buffer) ?bm1"
  have r: "FillRect_rows D buffer c minX maxX maxY y row bm = ?r"
    using lt by (simp add: FillRect_rows.simps [of D buffer c minX maxX maxY y row bm])
  show ?case
  proof (cases "j = 0")
    case True
    obtain ws where
      s: "set ws = {row + pitch buffer + j * pitch buffer + 4 * k | j k.
                     0 \<le> j \<and> j < maxY - (y + 1) \<and> 0 \<le> k \<and> k < maxX - minX}" and
      c: "\<forall>a. a \<notin> set ws \<longrightarrow> cells ?r a = cells ?bm1 a"
      using FillRect_rows_effect [of D buffer c minX maxX maxY "y + 1" "row + pitch buffer" ?bm1] by blast
    show ?thesis
    proof (cases "row + 4 * k \<in> set ws")
      case True
      then obtain j' k' where jk: "row + 4 * k = row + pitch buffer + j' * pitch buffer + 4 * k'"
        "0 \<le> j'" "j' < maxY - (y + 1)" "0 \<le> k'" "k' < maxX - minX" unfolding s by blast
      from "1.IH" [OF lt assms jk(2,3,4,5)]
      have "cells ?r (row + pitch buffer + j' * pitch buffer + 4 * k') = v" .
      then have "cells ?r (row + 4 * k) = v" unfolding jk(1) .
      then show ?thesis unfolding r using \<open>j = 0\<close> by simp
    next
      case False
      then have "cells ?r (row + 4 * k) = cells ?bm1 (row + 4 * k)" using c by blast
      also have "\<dots> = v" using FillRect_row_const [OF assms] "1.prems" by blast
      finally show ?thesis unfolding r using \<open>j = 0\<close> by simp
    qed
  next
    case False
    then have "0 \<le> j - 1" "j - 1 < maxY - (y + 1)" using "1.prems" by linarith+
    from "1.IH" [OF lt assms this "1.prems"(4,5)]
    have "cells ?r (row + pitch buffer + (j - 1) * pitch buffer + 4 * k) = v" .
    moreover have "row + pitch buffer + (j - 1) * pitch buffer + 4 * k = row + j * pitch buffer + 4 * k"
      by (simp add: algebra_simps)
    ultimately show ?thesis unfolding r by simp
  qed
qed

lemma FillBackground_pixel:
  assumes "pixelBytes buffer = 4" "0 \<le> x" "x < width buffer" "0 \<le> y" "y < height buffer"
    and r: "double_rounding (fl D)"
    and i: "width buffer < 2 ^ 31" "height buffer < 2 ^ 31"
  shows "cells (bitmap (FillBackground D buffer)) (GetPixel buffer x y) = argb (GetColor D (background D))"
proof -
  let ?c = "GetColor D (background D)"
  have a: "Color_a ?c = 255" by (simp add: GetColor_background [OF r])
  have fp: "\<forall>bm p. cells (FillPixel D ?c bm p) p = argb ?c"
    by (simp add: FillPixel_opaque [OF r a] store32_def)
  have w: "0 \<le> width buffer" "0 \<le> height buffer" using assms by linarith+
  have z: "sint (RoundDoubleToInt32 D 0) = 0"
    using RoundDoubleToInt32_sint [OF rounds_to_int32_of_int [of 0], of D]
    by (simp add: RoundNearest_def)
  have wh: "sint (RoundDoubleToInt32 D (real_of_int (width buffer))) = width buffer"
    "sint (RoundDoubleToInt32 D (real_of_int (height buffer))) = height buffer"
    using w i by (simp_all add: RoundDoubleToInt32_sint rounds_to_int32_of_int RoundNearest_of_int)
  have u: "FillBackground D buffer = buffer\<lparr>bitmap := FillRect_rows D buffer ?c 0 (width buffer) (height buffer) 0
      (GetPixel buffer 0 0) (bitmap buffer)\<rparr>"
    using w by (simp add: FillBackground_def FillRect_unfold z wh)
  have "cells (FillRect_rows D buffer ?c 0 (width buffer) (height buffer) 0 (GetPixel buffer 0 0) (bitmap buffer))
      (GetPixel buffer 0 0 + y * pitch buffer + 4 * x) = argb ?c"
    using FillRect_rows_const [OF fp, of y "height buffer" 0 x "width buffer" 0] assms
    by simp
  moreover have "GetPixel buffer 0 0 + y * pitch buffer + 4 * x = GetPixel buffer x y"
    using assms(1) by (simp add: GetPixel_def)
  ultimately show ?thesis by (simp add: u)
qed

lemma FillRect_fields [simp]:
  "width (FillRect D buffer x0 y0 x1 y1 c) = width buffer"
  "height (FillRect D buffer x0 y0 x1 y1 c) = height buffer"
  "pitch (FillRect D buffer x0 y0 x1 y1 c) = pitch buffer"
  "pixelBytes (FillRect D buffer x0 y0 x1 y1 c) = pixelBytes buffer"
  by (simp_all add: FillRect_unfold)

section \<open>The entry point\<close>

text \<open>
  C2: the test of the fast path is \<^verbatim>\<open>srcColor.a == 1\<close>. A source colour of alpha 1 is not
  fully opaque, and \<open>FillRect\<close> stores it unblended: on the pixel \<open>(0, 0)\<close> of the sample
  buffer the stored word is the source word \<open>0x01FFFFFF\<close>, where blending the source
  over the existing pixel with \<open>Composite\<close> gives \<open>0x01010101\<close>.
\<close>

theorem FillRect_alpha_one:
  "Color_a translucent = 1
   \<and> cells (bitmap (FillRect sample_decls sample_buffer 0 0 1 1 translucent))
         (GetPixel sample_buffer 0 0) = 0x01FFFFFF
   \<and> argb (Composite sample_decls translucent
         (Color_of (cells (bitmap sample_buffer) (GetPixel sample_buffer 0 0)))) = 0x01010101"
  by (simp add: translucent_def sample_buffer_def sample_decls_def FillRect_unfold RoundNearest_def
      RoundDoubleToInt32_def rounds_to_int32_def GetPixel_def FillRect_rows.simps FillRect_row.simps FillPixel_def store32_def argb_def
      Composite_def Color_of_def Lerp_def DoubleToUInt8_def)

lemma Acquire_error: "Acquire state = Inl e \<Longrightarrow> e = WildPointer"
  by (auto simp: Acquire_def split: option.splits if_splits)

lemma InitParticle_error: "InitParticle D buffer p sd = Inl e \<Longrightarrow> e = DivisionByZero"
  by (auto simp: InitParticle_def Let_def split: prod.splits if_splits)

lemma Spawn_error: "Spawn D buffer state sd = Inl e \<Longrightarrow> e \<noteq> AssertionFailure"
  by (auto simp: Spawn_def split: if_splits sum.splits prod.splits option.splits
      dest: Acquire_error InitParticle_error)

text \<open>
  C6, as amended: the assertion at the entry of \<open>UpdateAndRender\<close> does not fail whenever
  the memory size is greater than \<open>sizeof(State)\<close>, and it fails otherwise.
\<close>

theorem UpdateAndRender_assertion:
  "(sizeof_State D < Memory_size memory \<longrightarrow>
      UpdateAndRender D memory sd buffer secondsElapsed \<noteq> Inl AssertionFailure)
   \<and> (\<not> sizeof_State D < Memory_size memory \<longrightarrow>
      UpdateAndRender D memory sd buffer secondsElapsed = Inl AssertionFailure)"
  by (auto simp: UpdateAndRender_def Assert_def Let_def split: prod.splits sum.splits
      dest: Spawn_error)

theorem UpdateAndRender_assertion_witness:
  "UpdateAndRender sample_decls sample_memory (0, 0) sample_buffer 0 \<noteq> Inl AssertionFailure
   \<and> UpdateAndRender sample_decls (sample_memory\<lparr>Memory_size := 10\<rparr>) (0, 0) sample_buffer 0
        = Inl AssertionFailure"
  using UpdateAndRender_assertion [of sample_decls sample_memory "(0, 0)" sample_buffer 0]
    UpdateAndRender_assertion [of sample_decls "sample_memory\<lparr>Memory_size := 10\<rparr>" "(0, 0)" sample_buffer 0]
  by (simp add: sample_decls_def sample_memory_def)

text \<open>
  C6 as stated fails: a block of exactly \<open>sizeof(State)\<close> bytes is at least as large as
  the state, and the assertion fails.
\<close>

theorem UpdateAndRender_assertion_equal_size:
  "sizeof_State sample_decls \<le> Memory_size (sample_memory\<lparr>Memory_size := 64\<rparr>)
   \<and> UpdateAndRender sample_decls (sample_memory\<lparr>Memory_size := 64\<rparr>) (0, 0) sample_buffer 0
        = Inl AssertionFailure"
  by (simp add: UpdateAndRender_def Assert_def sample_decls_def sample_memory_def)


lemma Random_mod_width:
  assumes "0 < w" "w < 2 ^ 31"
  shows "(word_of_int w :: u64) \<noteq> 0"
    and "real (unat ((rnd :: u64) mod word_of_int w)) < real_of_int w"
    and "unat ((rnd :: u64) mod word_of_int w) \<le> 2 ^ 53"
proof -
  have u: "uint (word_of_int w :: u64) = w"
    using assms by (simp add: uint_word_of_int)
  then show nz: "(word_of_int w :: u64) \<noteq> 0" using assms by auto
  have "uint (rnd mod word_of_int w) = uint rnd mod w"
    using u by (simp add: uint_mod_distrib)
  moreover have "uint rnd mod w < w" using assms by simp
  ultimately have lt: "int (unat (rnd mod word_of_int w)) < w" by simp
  then show "real (unat (rnd mod word_of_int w)) < real_of_int w"
    by (metis of_int_less_iff of_int_of_nat_eq)
  have "int (unat (rnd mod word_of_int w)) \<le> 2 ^ 53" using lt assms(2) by simp
  then show "unat (rnd mod word_of_int w) \<le> 2 ^ 53"
    by (metis of_nat_le_iff of_nat_numeral of_nat_power)
qed

lemma InitParticle_result:
  assumes "0 < width buffer" "width buffer < 2 ^ 31"
    and "0 \<le> fst (RandomPercent D (snd (Random D sd)))" "fst (RandomPercent D (snd (Random D sd))) \<le> 1"
    and r: "double_rounding (fl D)"
  shows "\<exists>q sd'. InitParticle D buffer p sd = Inr (q, sd')
    \<and> Particle_radius q = 2.5 \<and> Particle_y q = - 5
    \<and> 0 \<le> Particle_x q \<and> Particle_x q < real_of_int (width buffer)
    \<and> 0.25 \<le> DoubleColor_a (Particle_color q) \<and> DoubleColor_a (Particle_color q) \<le> 1
    \<and> Particle_lifetime q = 200 \<and> Particle_next q = Particle_next p"
proof -
  obtain rnd sd1 where rn: "Random D sd = (rnd, sd1)" by (cases "Random D sd")
  obtain pct sd2 where q: "RandomPercent D sd1 = (pct, sd2)" by (cases "RandomPercent D sd1")
  have pct: "0 \<le> pct" "pct \<le> 1" using assms(3,4) rn q by simp_all
  note m = Random_mod_width(1) [OF assms(1,2)] Random_mod_width(2) [OF assms(1,2), of rnd]
  \<comment> \<open>the remainder is below \<open>2 ^ 31\<close>: its conversion to a double is exact\<close>
  have x: "fl D (real (unat (rnd mod word_of_int (width buffer))))
      = real (unat (rnd mod word_of_int (width buffer)))"
    using Random_mod_width(3) [OF assms(1,2), of rnd] by (rule fl_nat [OF r])
  have y: "fl D (- 5) = - 5" using fl_int [OF r, of "- 5"] by simp
  have q1: "fl D (1 / 4) = 1 / 4" using fl_quarters [OF r, of 1] by simp
  have q3: "fl D (3 / 4) = 3 / 4" using fl_quarters [OF r, of 3] by simp
  have t: "0 \<le> fl D (0.75 * pct)" "fl D (0.75 * pct) \<le> 3 / 4"
  proof -
    have "fl D 0 \<le> fl D (0.75 * pct)" using pct by (intro fl_mono [OF r]) simp
    then show "0 \<le> fl D (0.75 * pct)" using r by simp
    have "fl D (0.75 * pct) \<le> fl D (3 / 4)" using pct by (intro fl_mono [OF r]) simp
    then show "fl D (0.75 * pct) \<le> 3 / 4" unfolding q3 .
  qed
  have al: "1 / 4 \<le> fl D (0.25 + fl D (0.75 * pct))" "fl D (0.25 + fl D (0.75 * pct)) \<le> 1"
  proof -
    have "fl D (1 / 4) \<le> fl D (0.25 + fl D (0.75 * pct))" using t by (intro fl_mono [OF r]) simp
    then show "1 / 4 \<le> fl D (0.25 + fl D (0.75 * pct))" unfolding q1 .
    have "fl D (0.25 + fl D (0.75 * pct)) \<le> fl D 1" using t by (intro fl_mono [OF r]) simp
    then show "fl D (0.25 + fl D (0.75 * pct)) \<le> 1" using r by simp
  qed
  show ?thesis
    using m x y al by (simp add: InitParticle_def Let_def rn q del: of_nat_unat)
qed

lemma FillRect_frame:
  "\<exists>ws. written (bitmap (FillRect D buffer x0 y0 x1 y1 c)) = ws @ written (bitmap buffer)
     \<and> (\<forall>a. a \<notin> set ws \<longrightarrow> cells (bitmap (FillRect D buffer x0 y0 x1 y1 c)) a = cells (bitmap buffer) a)"
proof -
  let ?minX = "max 0 (sint (RoundDoubleToInt32 D x0))" and ?maxX = "min (width buffer) (sint (RoundDoubleToInt32 D x1))"
  let ?minY = "max 0 (sint (RoundDoubleToInt32 D y0))" and ?maxY = "min (height buffer) (sint (RoundDoubleToInt32 D y1))"
  show ?thesis
    using FillRect_rows_effect [of D buffer c ?minX ?maxX ?maxY ?minY "GetPixel buffer ?minX ?minY" "bitmap buffer"]
    by (auto simp: FillRect_unfold)
qed

lemma SimulateParticle_frame:
  "\<exists>ws. written (bitmap (snd (SimulateParticle D secs p buffer))) = ws @ written (bitmap buffer)
     \<and> (\<forall>a. a \<notin> set ws \<longrightarrow> cells (bitmap (snd (SimulateParticle D secs p buffer))) a = cells (bitmap buffer) a)"
proof (cases "Particle_lifetime p \<noteq> 0 \<and> Particle_lifetime p < 1")
  case True
  then have "snd (SimulateParticle D secs p buffer) = buffer" by (simp add: SimulateParticle_def)
  then show ?thesis by simp
next
  case False
  then have "snd (SimulateParticle D secs p buffer) = DrawParticle D buffer (AnimateParticle D p secs)"
    by (auto simp: SimulateParticle_def Let_def)
  then show ?thesis using FillRect_frame by (simp add: DrawParticle_def Let_def)
qed

lemma SimulateParticles_frame:
  "\<exists>ws. written (bitmap (snd (SimulateParticles D secs i ps buffer))) = ws @ written (bitmap buffer)
     \<and> (\<forall>a. a \<notin> set ws \<longrightarrow> cells (bitmap (snd (SimulateParticles D secs i ps buffer))) a = cells (bitmap buffer) a)"
proof (induction D secs i ps buffer rule: SimulateParticles.induct)
  case (1 D secs i ps buffer)
  show ?case
  proof (cases "i < length ps")
    case False
    then have "SimulateParticles D secs i ps buffer = (ps, buffer)"
      by (simp add: SimulateParticles.simps [of D secs i ps buffer])
    then show ?thesis by simp
  next
    case True
    obtain q b1 where sp: "SimulateParticle D secs (ps ! i) buffer = (q, b1)"
      by (cases "SimulateParticle D secs (ps ! i) buffer")
    let ?r = "SimulateParticles D secs (i + 1) (ps[i := q]) b1"
    have r: "SimulateParticles D secs i ps buffer = ?r"
      using True sp by (simp add: SimulateParticles.simps [of D secs i ps buffer])
    obtain ws1 where w1: "written (bitmap b1) = ws1 @ written (bitmap buffer)"
      and c1: "\<forall>a. a \<notin> set ws1 \<longrightarrow> cells (bitmap b1) a = cells (bitmap buffer) a"
      using SimulateParticle_frame [of D secs "ps ! i" buffer] sp by auto
    from "1.IH" [OF True sp [symmetric] refl] obtain ws where
      w: "written (bitmap (snd ?r)) = ws @ written (bitmap b1)" and
      c: "\<forall>a. a \<notin> set ws \<longrightarrow> cells (bitmap (snd ?r)) a = cells (bitmap b1) a"
      by blast
    have "written (bitmap (snd ?r)) = (ws @ ws1) @ written (bitmap buffer)" using w w1 by simp
    moreover have "\<forall>a. a \<notin> set (ws @ ws1) \<longrightarrow> cells (bitmap (snd ?r)) a = cells (bitmap buffer) a"
      using c c1 by simp
    ultimately show ?thesis unfolding r by blast
  qed
qed

lemma FillBackground_fields [simp]:
  "width (FillBackground D buffer) = width buffer"
  "height (FillBackground D buffer) = height buffer"
  "pitch (FillBackground D buffer) = pitch buffer"
  "pixelBytes (FillBackground D buffer) = pixelBytes buffer"
  by (simp_all add: FillBackground_def)

lemma Initialize_first:
  "\<not> isInitialized memory \<Longrightarrow>
     availableParticle (storage (fst (Initialize memory sd))) = Some 0
     \<and> ticks (storage (fst (Initialize memory sd))) = ticks (storage memory)
     \<and> particles (storage (fst (Initialize memory sd)))
         = LinkFreeList (int (length (particles (storage memory))) - 2) (particles (storage memory))
     \<and> isInitialized (fst (Initialize memory sd))
     \<and> Memory_size (fst (Initialize memory sd)) = Memory_size memory
     \<and> snd (Initialize memory sd) = (0x0bdb1dd352d7ddd4, 0x009b18cd16d1df52)"
  by (simp add: Initialize_def Let_def)

lemma LinkFreeList_length [simp]: "length (LinkFreeList i ps) = length ps"
proof (induction i ps rule: LinkFreeList.induct)
  case (1 i ps)
  then show ?case by (simp add: LinkFreeList.simps [of i ps])
qed

lemma Spawn_succeeds:
  assumes "ticks state mod 2 = 0 \<longrightarrow> (\<forall>i. availableParticle state = Some i \<longrightarrow> i < length (particles state))"
    and "0 < width buffer" "width buffer < 2 ^ 31"
  shows "\<exists>state' sd'. Spawn D buffer state sd = Inr (state', sd')"
proof -
  have nz: "(word_of_int (width buffer) :: u64) \<noteq> 0"
    using Random_mod_width(1) [OF assms(2,3)] .
  have ip: "\<exists>q sd'. InitParticle D buffer p s = Inr (q, sd')" for p s
    using nz by (simp add: InitParticle_def Let_def split: prod.splits)
  show ?thesis
  proof (cases "ticks state mod 2 = 0")
    case False
    then show ?thesis by (simp add: Spawn_def)
  next
    case True
    show ?thesis
    proof (cases "availableParticle state")
      case None
      then show ?thesis using True by (simp add: Spawn_def Acquire_def)
    next
      case (Some i)
      then have "i < length (particles state)" using assms(1) True by blast
      then have a: "Acquire state = Inr (Some i, state\<lparr>availableParticle := Particle_next (particles state ! i)\<rparr>)"
        using Some by (simp add: Acquire_def)
      obtain q sd' where "InitParticle D buffer (particles state ! i) sd = Inr (q, sd')"
        using ip by blast
      then show ?thesis using True a by (simp add: Spawn_def)
    qed
  qed
qed

text \<open>
  C7: the packed form of the background colour \<open>{1.0, 0.01, 0.02, 0.05}\<close> is
  \<open>{255, 3, 5, 13}\<close>. On the first call of \<open>UpdateAndRender\<close>, with a buffer of 100 by 100
  pixels of any contents, the background fill sets every pixel to that packed value; the
  call returns, and the particles are drawn over the filled buffer: the returned bitmap
  is the filled one but for the stores \<open>ws\<close> made after the fill.
\<close>

theorem UpdateAndRender_background:
  assumes "sizeof_State D < Memory_size memory" "\<not> isInitialized memory"
    and "particles (storage memory) \<noteq> []"
    and "width buffer = 100" "height buffer = 100" "pixelBytes buffer = 4"
    and "double_rounding (fl D)"
  shows "GetColor D (background D) = \<lparr>Color_a = 255, Color_r = 3, Color_g = 5, Color_b = 13\<rparr>
    \<and> (\<forall>x y. 0 \<le> x \<and> x < 100 \<and> 0 \<le> y \<and> y < 100 \<longrightarrow>
          cells (bitmap (FillBackground D buffer)) (GetPixel buffer x y) = argb (GetColor D (background D)))
    \<and> (\<exists>memory' sd' buffer' ws.
          UpdateAndRender D memory sd buffer secondsElapsed = Inr (memory', sd', buffer')
          \<and> written (bitmap buffer') = ws @ written (bitmap (FillBackground D buffer))
          \<and> (\<forall>a. a \<notin> set ws \<longrightarrow> cells (bitmap buffer') a = cells (bitmap (FillBackground D buffer)) a))"
proof -
  have bg: "\<forall>x y. 0 \<le> x \<and> x < 100 \<and> 0 \<le> y \<and> y < 100 \<longrightarrow>
      cells (bitmap (FillBackground D buffer)) (GetPixel buffer x y) = argb (GetColor D (background D))"
    using FillBackground_pixel [OF assms(6) _ _ _ _ assms(7)] assms(4,5) by simp
  obtain m0 sd0 where i: "Initialize memory sd = (m0, sd0)" by (cases "Initialize memory sd")
  have m0: "availableParticle (storage m0) = Some 0"
    "length (particles (storage m0)) = length (particles (storage memory))"
    using Initialize_first [OF assms(2), of sd] i by simp_all
  let ?b = "FillBackground D buffer"
  have "\<exists>state' sd'. Spawn D ?b (storage m0) sd0 = Inr (state', sd')"
    using m0 assms(3,4) by (intro Spawn_succeeds) simp_all
  then obtain st1 sd1 where sp: "Spawn D ?b (storage m0) sd0 = Inr (st1, sd1)" by blast
  obtain ps b' where sim: "SimulateParticles D secondsElapsed 0 (particles st1) ?b = (ps, b')"
    by (cases "SimulateParticles D secondsElapsed 0 (particles st1) ?b")
  have u: "UpdateAndRender D memory sd buffer secondsElapsed
      = Inr (m0\<lparr>storage := st1\<lparr>particles := ps, ticks := ticks st1 + 1\<rparr>\<rparr>, sd1, b')"
    using assms(1) i sp sim by (simp add: UpdateAndRender_def Assert_def Let_def)
  obtain ws where "written (bitmap b') = ws @ written (bitmap ?b)"
    "\<forall>a. a \<notin> set ws \<longrightarrow> cells (bitmap b') a = cells (bitmap ?b) a"
    using SimulateParticles_frame [of D secondsElapsed 0 "particles st1" ?b] sim by auto
  then show ?thesis using GetColor_background [OF assms(7)] bg u by blast
qed

section \<open>The particle pool\<close>

lemma LinkFreeList_nth:
  "i < int (length ps) \<Longrightarrow> j < length ps \<Longrightarrow>
     LinkFreeList i ps ! j = (if int j \<le> i then (ps ! j)\<lparr>Particle_next := Some (j + 1)\<rparr> else ps ! j)"
proof (induction i ps arbitrary: j rule: LinkFreeList.induct)
  case (1 i ps)
  show ?case
  proof (cases "0 \<le> i")
    case False
    then show ?thesis by (simp add: LinkFreeList.simps [of i ps])
  next
    case True
    let ?ps = "ps[nat i := (ps ! nat i)\<lparr>Particle_next := Some (nat i + 1)\<rparr>]"
    have r: "LinkFreeList i ps = LinkFreeList (i - 1) ?ps"
      using True by (simp add: LinkFreeList.simps [of i ps])
    have "LinkFreeList (i - 1) ?ps ! j
        = (if int j \<le> i - 1 then (?ps ! j)\<lparr>Particle_next := Some (j + 1)\<rparr> else ?ps ! j)"
      using "1.IH" [OF True, of j] "1.prems" by simp
    moreover have "?ps ! j = (if j = nat i then (ps ! j)\<lparr>Particle_next := Some (j + 1)\<rparr> else ps ! j)"
      using "1.prems" True by (auto simp: nth_list_update)
    ultimately show ?thesis unfolding r using True by auto
  qed
qed

lemma Initialize_links:
  assumes "\<not> isInitialized memory" "j < length (particles (storage memory))"
  shows "particles (storage (fst (Initialize memory sd))) ! j
     = (if j + 1 < length (particles (storage memory))
        then (particles (storage memory) ! j)\<lparr>Particle_next := Some (j + 1)\<rparr>
        else particles (storage memory) ! j)"
proof -
  let ?ps = "particles (storage memory)"
  have "LinkFreeList (int (length ?ps) - 2) ?ps ! j
      = (if int j \<le> int (length ?ps) - 2 then (?ps ! j)\<lparr>Particle_next := Some (j + 1)\<rparr> else ?ps ! j)"
    using assms(2) by (intro LinkFreeList_nth) simp_all
  moreover have "int j \<le> int (length ?ps) - 2 \<longleftrightarrow> j + 1 < length ?ps" by linarith
  ultimately show ?thesis using Initialize_first [OF assms(1), of sd] by simp
qed

lemma Acquire_linked:
  assumes "availableParticle state = (if j < length (particles state) then Some j else None)"
    and "j < length (particles state) \<longrightarrow>
         Particle_next (particles state ! j) = (if j + 1 < length (particles state) then Some (j + 1) else None)"
  shows "Acquire state = Inr (if j < length (particles state) then Some j else None,
     state\<lparr>availableParticle := (if j + 1 < length (particles state) then Some (j + 1) else None)\<rparr>)"
proof (cases "j < length (particles state)")
  case True
  then show ?thesis using assms by (simp add: Acquire_def)
next
  case False
  then have "availableParticle state = None" using assms by simp
  moreover from this have "state\<lparr>availableParticle := None\<rparr> = state" by (cases state) simp
  ultimately show ?thesis using False by (simp add: Acquire_def)
qed

lemma Acquires_linked:
  assumes "\<forall>i. j \<le> i \<and> i < length (particles state) \<longrightarrow>
      Particle_next (particles state ! i) = (if i + 1 < length (particles state) then Some (i + 1) else None)"
    and "availableParticle state = (if j < length (particles state) then Some j else None)"
  shows "Acquires k state
    = Inr (map (\<lambda>i. if i < length (particles state) then Some i else None) [j..<j + k],
           state\<lparr>availableParticle := (if j + k < length (particles state) then Some (j + k) else None)\<rparr>)"
  using assms
proof (induction k arbitrary: j state)
  case 0
  then have "state\<lparr>availableParticle := (if j < length (particles state) then Some j else None)\<rparr> = state"
    by (cases state) simp
  then have "Inr ([], state) = Inr ([] :: nat option list,
      state\<lparr>availableParticle := (if j < length (particles state) then Some j else None)\<rparr>)"
    by (rule arg_cong [where f = "\<lambda>s. Inr ([], s)", symmetric])
  then show ?case by (simp del: if_split cong: if_cong)
next
  case (Suc k)
  let ?N = "length (particles state)"
  let ?st = "state\<lparr>availableParticle := (if j + 1 < ?N then Some (j + 1) else None)\<rparr>"
  have a: "Acquire state = Inr (if j < ?N then Some j else None, ?st)"
    using Suc.prems by (intro Acquire_linked) simp_all
  have "Acquires k ?st
    = Inr (map (\<lambda>i. if i < length (particles ?st) then Some i else None) [j + 1..<j + 1 + k],
           ?st\<lparr>availableParticle := (if j + 1 + k < length (particles ?st) then Some (j + 1 + k) else None)\<rparr>)"
    using Suc.prems by (intro Suc.IH) simp_all
  then show ?case using a by (simp add: upt_conv_Cons)
qed

text \<open>
  C5, as amended: when the last slot's link is empty before the one-time initialization
  (as in a block that is all zero; the linking loop does not write it), then after the
  initialization of a pool with \<open>N \<ge> 1\<close> slots every slot \<open>i < N - 1\<close> links to slot \<open>i + 1\<close>,
  the last slot's link is empty and the head of the free list is slot 0; from that state
  \<open>N\<close> successive Acquire operations return the slots \<open>0, \<dots>, N - 1\<close>, each once, the next
  one returns none, and in the state it leaves the spawning block changes nothing.
\<close>

theorem free_list_after_Initialize:
  assumes "\<not> isInitialized memory" and "particles (storage memory) \<noteq> []"
    and "Particle_next (last (particles (storage memory))) = None"
  shows "length (particles (storage (fst (Initialize memory sd)))) = length (particles (storage memory))
    \<and> (\<forall>i. i + 1 < length (particles (storage memory)) \<longrightarrow>
          Particle_next (particles (storage (fst (Initialize memory sd))) ! i) = Some (i + 1))
    \<and> Particle_next (last (particles (storage (fst (Initialize memory sd))))) = None
    \<and> availableParticle (storage (fst (Initialize memory sd))) = Some 0
    \<and> Acquires (length (particles (storage memory)) + 1) (storage (fst (Initialize memory sd)))
        = Inr (map Some [0..<length (particles (storage memory))] @ [None],
               (storage (fst (Initialize memory sd)))\<lparr>availableParticle := None\<rparr>)
    \<and> (\<forall>D buffer sd'. Spawn D buffer ((storage (fst (Initialize memory sd)))\<lparr>availableParticle := None\<rparr>) sd'
          = Inr ((storage (fst (Initialize memory sd)))\<lparr>availableParticle := None\<rparr>, sd'))"
proof -
  let ?ps = "particles (storage memory)"
  let ?N = "length ?ps"
  let ?st = "storage (fst (Initialize memory sd))"
  have N: "0 < ?N" using assms(2) by simp
  have len: "length (particles ?st) = ?N"
    using Initialize_first [OF assms(1), of sd] by simp
  have nth: "particles ?st ! j = (if j + 1 < ?N then (?ps ! j)\<lparr>Particle_next := Some (j + 1)\<rparr> else ?ps ! j)"
    if "j < ?N" for j using Initialize_links [OF assms(1) that] .
  have links: "\<forall>i. i + 1 < ?N \<longrightarrow> Particle_next (particles ?st ! i) = Some (i + 1)"
    using nth by simp
  have "particles ?st ! (?N - 1) = ?ps ! (?N - 1)" using nth [of "?N - 1"] N by simp
  then have lst: "Particle_next (particles ?st ! (?N - 1)) = None"
    using assms(2,3) by (simp add: last_conv_nth)
  have ne: "particles ?st \<noteq> []" using len N by auto
  have lst': "Particle_next (last (particles ?st)) = None"
    using lst ne len by (simp add: last_conv_nth)
  have head: "availableParticle ?st = Some 0"
    using Initialize_first [OF assms(1), of sd] by simp
  have all: "\<forall>i. 0 \<le> i \<and> i < length (particles ?st) \<longrightarrow>
      Particle_next (particles ?st ! i) = (if i + 1 < length (particles ?st) then Some (i + 1) else None)"
  proof (intro allI impI)
    fix i assume i: "0 \<le> i \<and> i < length (particles ?st)"
    show "Particle_next (particles ?st ! i) = (if i + 1 < length (particles ?st) then Some (i + 1) else None)"
    proof (cases "i + 1 < ?N")
      case True
      then show ?thesis using links len by simp
    next
      case False
      then have "i = ?N - 1" using i len by linarith
      then show ?thesis using lst len False by simp
    qed
  qed
  have "Acquires (?N + 1) ?st
    = Inr (map (\<lambda>i. if i < length (particles ?st) then Some i else None) [0..<0 + (?N + 1)],
           ?st\<lparr>availableParticle := (if 0 + (?N + 1) < length (particles ?st) then Some (0 + (?N + 1)) else None)\<rparr>)"
    using all head N len by (intro Acquires_linked) simp_all
  then have acq: "Acquires (?N + 1) ?st = Inr (map Some [0..<?N] @ [None], ?st\<lparr>availableParticle := None\<rparr>)"
    using len by simp
  have noop: "\<forall>D buffer sd'. Spawn D buffer (?st\<lparr>availableParticle := None\<rparr>) sd'
      = Inr (?st\<lparr>availableParticle := None\<rparr>, sd')"
    by (simp add: Spawn_def Acquire_def)
  show ?thesis using len links lst' head acq noop by blast
qed

text \<open>
  C5 as stated fails: the initialization does not write the last slot's link. In a block
  of two slots whose last slot holds a link to slot 0, the link is still there after the
  initialization, and the third Acquire returns slot 0 again.
\<close>

theorem free_list_garbage_link:
  "Particle_next (last (particles (storage (fst (Initialize garbage_memory (0, 0)))))) = Some 0
   \<and> map_sum id fst (Acquires 3 (storage (fst (Initialize garbage_memory (0, 0)))))
       = Inr [Some 0, Some 1, Some 0]"
  by (simp add: garbage_memory_def zero_particle_def Initialize_def Let_def LinkFreeList.simps
      Acquire_def numeral_3_eq_3)

text \<open>
  C8: when the tick counter is even and the head of the free list is a slot \<open>i\<close>, for a
  buffer of positive width, the spawning block succeeds and leaves in slot \<open>i\<close> a particle
  of radius 2.5, with \<open>y = -5 = -2 \<times> radius\<close>, \<open>x\<close> in \<open>[0, width)\<close>, alpha in \<open>[0.25, 1]\<close> and
  lifetime 200. The witness is a buffer of width 100.
\<close>

theorem Spawn_fresh_particle:
  assumes "ticks state mod 2 = 0" and "availableParticle state = Some i"
    and "i < length (particles state)"
    and "0 < width buffer" and "width buffer < 2 ^ 31"
    and "RandomPercent_in_range D" and "double_rounding (fl D)"
  shows "\<exists>state' sd'. Spawn D buffer state sd = Inr (state', sd')
    \<and> availableParticle state' = Particle_next (particles state ! i)
    \<and> Particle_radius (particles state' ! i) = 2.5
    \<and> Particle_y (particles state' ! i) = - 5
    \<and> Particle_y (particles state' ! i) = - 2 * Particle_radius (particles state' ! i)
    \<and> 0 \<le> Particle_x (particles state' ! i)
    \<and> Particle_x (particles state' ! i) < real_of_int (width buffer)
    \<and> 0.25 \<le> DoubleColor_a (Particle_color (particles state' ! i))
    \<and> DoubleColor_a (Particle_color (particles state' ! i)) \<le> 1
    \<and> Particle_lifetime (particles state' ! i) = 200"
proof -
  have a: "Acquire state = Inr (Some i, state\<lparr>availableParticle := Particle_next (particles state ! i)\<rparr>)"
    using assms(2,3) by (simp add: Acquire_def)
  have p: "0 \<le> fst (RandomPercent D (snd (Random D sd)))" "fst (RandomPercent D (snd (Random D sd))) \<le> 1"
    using assms(6) unfolding RandomPercent_in_range_def by blast+
  obtain q sd' where q: "InitParticle D buffer (particles state ! i) sd = Inr (q, sd')"
    "Particle_radius q = 2.5" "Particle_y q = - 5" "0 \<le> Particle_x q"
    "Particle_x q < real_of_int (width buffer)" "0.25 \<le> DoubleColor_a (Particle_color q)"
    "DoubleColor_a (Particle_color q) \<le> 1" "Particle_lifetime q = 200"
    using InitParticle_result [OF assms(4,5) p assms(7), of "particles state ! i"] by blast
  have "Spawn D buffer state sd
      = Inr (state\<lparr>availableParticle := Particle_next (particles state ! i),
                   particles := (particles state)[i := q]\<rparr>, sd')"
    using assms(1) a q(1) by (simp add: Spawn_def)
  then show ?thesis using q assms(3) by simp
qed

theorem Spawn_fresh_particle_witness:
  "\<exists>state' sd'. Spawn sample_decls sample_buffer100
       ((storage sample_memory)\<lparr>availableParticle := Some 1\<rparr>) (3, 4) = Inr (state', sd')
     \<and> Particle_y (particles state' ! 1) = - 5
     \<and> 0 \<le> Particle_x (particles state' ! 1) \<and> Particle_x (particles state' ! 1) < 100
     \<and> Particle_lifetime (particles state' ! 1) = 200"
proof -
  let ?st = "(storage sample_memory)\<lparr>availableParticle := Some 1\<rparr>"
  have h: "ticks ?st mod 2 = 0" "availableParticle ?st = Some 1" "1 < length (particles ?st)"
    "0 < width sample_buffer100" "width sample_buffer100 < 2 ^ 31"
    "RandomPercent_in_range sample_decls" "double_rounding (fl sample_decls)"
    by (simp_all add: sample_memory_def sample_buffer100_def sample_decls_def
        RandomPercent_in_range_def double_rounding_exact)
  have w: "width sample_buffer100 = 100" by (simp add: sample_buffer100_def)
  show ?thesis
    using Spawn_fresh_particle [OF h, of "(3, 4)"] unfolding w by auto
qed

theorem free_list_after_Initialize_witness:
  "Acquires 3 (storage (fst (Initialize sample_memory (0, 0))))
     = Inr ([Some 0, Some 1, None],
            (storage (fst (Initialize sample_memory (0, 0))))\<lparr>availableParticle := None\<rparr>)"
proof -
  have h: "\<not> isInitialized sample_memory" "particles (storage sample_memory) \<noteq> []"
    "Particle_next (last (particles (storage sample_memory))) = None"
    by (simp_all add: sample_memory_def zero_particle_def)
  have l: "length (particles (storage sample_memory)) = 2" by (simp add: sample_memory_def)
  have u: "[0..<2] = [0, Suc 0]" by (simp add: upt_conv_Cons numeral_2_eq_2)
  show ?thesis
    using free_list_after_Initialize [OF h, of "(0, 0)"] unfolding l by (simp add: u)
qed

theorem UpdateAndRender_background_witness:
  "cells (bitmap (FillBackground sample_decls sample_buffer100)) (GetPixel sample_buffer100 99 99)
     = argb \<lparr>Color_a = 255, Color_r = 3, Color_g = 5, Color_b = 13\<rparr>
   \<and> (\<exists>memory' sd' buffer'.
         UpdateAndRender sample_decls sample_memory (0, 0) sample_buffer100 (1 / 60)
           = Inr (memory', sd', buffer'))"
proof -
  have h: "sizeof_State sample_decls < Memory_size sample_memory" "\<not> isInitialized sample_memory"
    "particles (storage sample_memory) \<noteq> []"
    "width sample_buffer100 = 100" "height sample_buffer100 = 100" "pixelBytes sample_buffer100 = 4"
    "double_rounding (fl sample_decls)"
    by (simp_all add: sample_memory_def sample_buffer100_def sample_decls_def double_rounding_exact)
  show ?thesis
    using UpdateAndRender_background [OF h, of "(0, 0)" "1 / 60"] by auto
qed

section \<open>What a call depends on\<close>














section \<open>Slots that are never acquired\<close>

lemma FillRect_no_width: "FillRect D buffer x y0 x y1 c = buffer"
proof -
  have "min (width buffer) (sint (RoundDoubleToInt32 D x)) \<le> max 0 (sint (RoundDoubleToInt32 D x))"
    by simp
  then show ?thesis by (simp add: FillRect_unfold FillRect_rows_empty_x)
qed

lemma SimulateParticle_fresh:
  assumes "Particle_radius p = 0" "Particle_lifetime p = 0"
  shows "SimulateParticle D secs p buffer
    = (p\<lparr>Particle_x := fl D (Particle_x p),
         Particle_y := fl D (Particle_y p + fl D (160 * secs)), Particle_lifetime := - 1\<rparr>, buffer)"
  using assms
  by (simp add: SimulateParticle_def AnimateParticle_def DrawParticle_def Let_def FillRect_no_width)

lemma SimulateParticle_skip:
  assumes "Particle_lifetime p \<noteq> 0" "Particle_lifetime p < 1"
  shows "SimulateParticle D secs p buffer = (p, buffer)"
  using assms by (simp add: SimulateParticle_def)

lemma SimulateParticle_fst:
  "fst (SimulateParticle D secs p buffer)
     = (if Particle_lifetime p \<noteq> 0 \<and> Particle_lifetime p < 1 then p else AnimateParticle D p secs)"
  by (simp add: SimulateParticle_def Let_def)

lemma SimulateParticles_particles:
  "length (fst (SimulateParticles D secs i ps buffer)) = length ps
   \<and> (\<forall>n < length ps. fst (SimulateParticles D secs i ps buffer) ! n
         = (if i \<le> n
            then (if Particle_lifetime (ps ! n) \<noteq> 0 \<and> Particle_lifetime (ps ! n) < 1 then ps ! n
                  else AnimateParticle D (ps ! n) secs)
            else ps ! n))"
proof (induction D secs i ps buffer rule: SimulateParticles.induct)
  case (1 D secs i ps buffer)
  show ?case
  proof (cases "i < length ps")
    case False
    then have "SimulateParticles D secs i ps buffer = (ps, buffer)"
      by (simp add: SimulateParticles.simps [of D secs i ps buffer])
    then show ?thesis using False by simp
  next
    case True
    obtain q b1 where sp: "SimulateParticle D secs (ps ! i) buffer = (q, b1)"
      by (cases "SimulateParticle D secs (ps ! i) buffer")
    have q: "q = (if Particle_lifetime (ps ! i) \<noteq> 0 \<and> Particle_lifetime (ps ! i) < 1 then ps ! i
                  else AnimateParticle D (ps ! i) secs)"
      using SimulateParticle_fst [of D secs "ps ! i" buffer] sp by simp
    let ?r = "SimulateParticles D secs (i + 1) (ps[i := q]) b1"
    have r: "SimulateParticles D secs i ps buffer = ?r"
      using True sp by (simp add: SimulateParticles.simps [of D secs i ps buffer])
    note ih = "1.IH" [OF True sp [symmetric] refl]
    have len: "length (fst ?r) = length ps" using ih by simp
    have nth: "fst ?r ! n
         = (if i \<le> n
            then (if Particle_lifetime (ps ! n) \<noteq> 0 \<and> Particle_lifetime (ps ! n) < 1 then ps ! n
                  else AnimateParticle D (ps ! n) secs)
            else ps ! n)" if "n < length ps" for n
    proof -
      have "fst ?r ! n
         = (if i + 1 \<le> n
            then (if Particle_lifetime (ps[i := q] ! n) \<noteq> 0 \<and> Particle_lifetime (ps[i := q] ! n) < 1
                  then ps[i := q] ! n else AnimateParticle D (ps[i := q] ! n) secs)
            else ps[i := q] ! n)"
        using ih that by simp
      then show ?thesis using that True q by (cases "n = i") (auto simp: nth_list_update)
    qed
    show ?thesis unfolding r using len nth by blast
  qed
qed

lemma Initialize_initialized: "isInitialized memory \<Longrightarrow> Initialize memory sd = (memory, sd)"
  by (simp add: Initialize_def)

lemma SimulateParticles_fold:
  "snd (SimulateParticles D secs i ps buffer)
     = fold (\<lambda>p b. snd (SimulateParticle D secs p b)) (drop i ps) buffer"
proof (induction D secs i ps buffer rule: SimulateParticles.induct)
  case (1 D secs i ps buffer)
  show ?case
  proof (cases "i < length ps")
    case False
    then show ?thesis by (simp add: SimulateParticles.simps [of D secs i ps buffer])
  next
    case True
    obtain q b1 where sp: "SimulateParticle D secs (ps ! i) buffer = (q, b1)"
      by (cases "SimulateParticle D secs (ps ! i) buffer")
    have r: "SimulateParticles D secs i ps buffer = SimulateParticles D secs (i + 1) (ps[i := q]) b1"
      using True sp by (simp add: SimulateParticles.simps [of D secs i ps buffer])
    have "snd (SimulateParticles D secs (i + 1) (ps[i := q]) b1)
        = fold (\<lambda>p b. snd (SimulateParticle D secs p b)) (drop (i + 1) (ps[i := q])) b1"
      using "1.IH" [OF True sp [symmetric] refl] .
    also have "drop (i + 1) (ps[i := q]) = drop (i + 1) ps" by simp
    finally have "snd (SimulateParticles D secs i ps buffer)
        = fold (\<lambda>p b. snd (SimulateParticle D secs p b)) (drop (i + 1) ps) b1"
      unfolding r .
    moreover have "drop i ps = ps ! i # drop (i + 1) ps"
      using True by (simp add: Cons_nth_drop_Suc)
    ultimately show ?thesis using sp by simp
  qed
qed

lemma fold_idle:
  assumes "\<forall>p \<in> set qs. Particle_radius p = 0 \<and> (Particle_lifetime p = 0 \<or> Particle_lifetime p = - 1)"
  shows "fold (\<lambda>p b. snd (SimulateParticle D secs p b)) qs buffer = buffer"
  using assms
proof (induction qs arbitrary: buffer)
  case Nil
  then show ?case by simp
next
  case (Cons p qs)
  have "snd (SimulateParticle D secs p buffer) = buffer"
    using Cons.prems SimulateParticle_fresh [of p D secs buffer] SimulateParticle_skip [of p D secs buffer]
    by auto
  then show ?case using Cons by simp
qed

lemma SimulateParticles_idle_suffix:
  assumes "\<forall>i. j \<le> i \<and> i < length ps \<longrightarrow>
      Particle_radius (ps ! i) = 0 \<and> (Particle_lifetime (ps ! i) = 0 \<or> Particle_lifetime (ps ! i) = - 1)"
  shows "snd (SimulateParticles D secs 0 ps buffer) = snd (SimulateParticles D secs 0 (take j ps) buffer)"
proof -
  let ?f = "\<lambda>p b. snd (SimulateParticle D secs p b)"
  have idle: "\<forall>p \<in> set (drop j ps). Particle_radius p = 0 \<and> (Particle_lifetime p = 0 \<or> Particle_lifetime p = - 1)"
  proof
    fix p assume "p \<in> set (drop j ps)"
    then obtain m where m: "m < length (drop j ps)" "p = drop j ps ! m"
      by (auto simp: in_set_conv_nth)
    then have "p = ps ! (j + m)" "j + m < length ps" by simp_all
    then show "Particle_radius p = 0 \<and> (Particle_lifetime p = 0 \<or> Particle_lifetime p = - 1)"
      using assms by simp
  qed
  have "fold ?f ps buffer = fold ?f (take j ps @ drop j ps) buffer" by simp
  also have "\<dots> = fold ?f (drop j ps) (fold ?f (take j ps) buffer)" by (simp only: fold_append o_apply)
  also have "\<dots> = fold ?f (take j ps) buffer" using fold_idle [OF idle] .
  finally show ?thesis by (simp add: SimulateParticles_fold)
qed

lemma spawn_index_even:
  assumes "even k" "min N ((k + 1) div 2) < (N::nat)"
  shows "min N ((k + 2) div 2) = min N ((k + 1) div 2) + 1"
proof -
  from assms(1) obtain m where m: "k = 2 * m" by (elim evenE)
  have "(k + 1) div 2 = m" "(k + 2) div 2 = m + 1" unfolding m by simp_all
  then show ?thesis using assms(2) by (auto simp: min_def split: if_splits)
qed

lemma spawn_index_odd:
  assumes "odd k"
  shows "min N ((k + 2) div 2) = min (N::nat) ((k + 1) div 2)"
proof -
  from assms obtain m where m: "k = 2 * m + 1" by (elim oddE)
  have "(k + 1) div 2 = m + 1" "(k + 2) div 2 = m + 1" unfolding m by simp_all
  then show ?thesis by simp
qed

lemma spawn_index_full:
  assumes "\<not> min N ((k + 1) div 2) < (N::nat)"
  shows "min N ((k + 2) div 2) = min (N::nat) ((k + 1) div 2)"
proof -
  have "N \<le> (k + 1) div 2" using assms by (simp add: min_def split: if_splits)
  moreover have "(k + 1) div 2 \<le> (k + 2) div 2" by (intro div_le_mono) simp
  ultimately show ?thesis by (simp add: min_def)
qed

lemma pool_inv_step:
  assumes inv: "pool_inv k (storage memory)" and ini: "isInitialized memory"
    and sz: "sizeof_State D < Memory_size memory"
    and w: "0 < width buffer" "width buffer < 2 ^ 31"
  shows "\<exists>memory' sd' buffer'. UpdateAndRender D memory sd buffer secs = Inr (memory', sd', buffer')
    \<and> pool_inv (k + 1) (storage memory') \<and> isInitialized memory'
    \<and> Memory_size memory' = Memory_size memory
    \<and> length (particles (storage memory')) = length (particles (storage memory))"
proof -
  define st where "st = storage memory"
  define ps where "ps = particles st"
  define N where "N = length ps"
  define j where "j = min N ((k + 1) div 2)"
  define j1 where "j1 = min N ((k + 2) div 2)"
  define b where "b = FillBackground D buffer"
  have t: "ticks st = int k"
    using inv by (simp add: pool_inv_def Let_def st_def)
  have head: "availableParticle st = (if j < N then Some j else None)"
    using inv by (simp add: pool_inv_def Let_def st_def ps_def N_def j_def)
  have slots: "Particle_next (ps ! i) = (if i + 1 < N then Some (i + 1) else None)
      \<and> Particle_radius (ps ! i) = 0 \<and> Particle_lifetime (ps ! i) = (if k = 0 then 0 else - 1)"
    if "j \<le> i" "i < N" for i
    using inv that unfolding pool_inv_def Let_def st_def ps_def N_def j_def by blast
  have nz: "(word_of_int (width b) :: u64) \<noteq> 0"
    using Random_mod_width(1) [OF w] by (simp add: b_def)
  have jj: "j \<le> j1" unfolding j_def j1_def by (intro min.mono div_le_mono) simp_all
  \<comment> \<open>the state after the spawning block\<close>
  have "\<exists>st1 sd1. Spawn D b st sd = Inr (st1, sd1)
      \<and> length (particles st1) = N \<and> ticks st1 = int k
      \<and> availableParticle st1 = (if j1 < N then Some j1 else None)
      \<and> (\<forall>i. j1 \<le> i \<and> i < N \<longrightarrow> particles st1 ! i = ps ! i)"
  proof (cases "even k \<and> j < N")
    case False
    have "Spawn D b st sd = Inr (st, sd)"
    proof (cases "even k")
      case True
      then have "availableParticle st = None" using False head by simp
      then show ?thesis by (simp add: Spawn_def Acquire_def)
    next
      case False
      then have "ticks st mod 2 \<noteq> 0" unfolding t by presburger
      then show ?thesis by (simp add: Spawn_def)
    qed
    moreover have "j1 = j"
      using False spawn_index_odd [of k N] spawn_index_full [of N k] unfolding j_def j1_def by blast
    ultimately show ?thesis using t head by (simp add: ps_def N_def)
  next
    case True
    have j1: "j1 = j + 1" using True spawn_index_even [of k N] unfolding j_def j1_def by blast
    have jN: "j < N" using True by simp
    have ev: "ticks st mod 2 = 0" using True unfolding t by presburger
    have a: "Acquire st = Inr (Some j, st\<lparr>availableParticle := Particle_next (ps ! j)\<rparr>)"
      using head jN by (simp add: Acquire_def ps_def N_def)
    obtain rnd sda where r: "Random D sd = (rnd, sda)" by (cases "Random D sd")
    obtain pct sdb where p: "RandomPercent D sda = (pct, sdb)" by (cases "RandomPercent D sda")
    obtain q sd1 where q: "InitParticle D b (ps ! j) sd = Inr (q, sd1)"
      using nz by (simp add: InitParticle_def Let_def r p)
    have s: "Spawn D b st sd
        = Inr (st\<lparr>availableParticle := Particle_next (ps ! j), particles := ps[j := q]\<rparr>, sd1)"
      using ev a q by (simp add: Spawn_def ps_def)
    have nx: "Particle_next (ps ! j) = (if j1 < N then Some j1 else None)"
      using slots [of j] jN j1 by simp
    have "\<forall>i. j1 \<le> i \<and> i < N \<longrightarrow> ps[j := q] ! i = ps ! i" using j1 by simp
    then show ?thesis unfolding s nx using t by (simp add: N_def)
  qed
  then obtain st1 sd1 where sp: "Spawn D b st sd = Inr (st1, sd1)"
    and l1: "length (particles st1) = N" and t1: "ticks st1 = int k"
    and h1: "availableParticle st1 = (if j1 < N then Some j1 else None)"
    and p1: "\<forall>i. j1 \<le> i \<and> i < N \<longrightarrow> particles st1 ! i = ps ! i"
    by blast
  obtain ps' b' where sim: "SimulateParticles D secs 0 (particles st1) b = (ps', b')"
    by (cases "SimulateParticles D secs 0 (particles st1) b")
  define m where "m = memory\<lparr>storage := st1\<lparr>particles := ps', ticks := ticks st1 + 1\<rparr>\<rparr>"
  have u: "UpdateAndRender D memory sd buffer secs = Inr (m, sd1, b')"
    using sz sp sim
    by (simp add: UpdateAndRender_def Assert_def Let_def Initialize_initialized [OF ini]
        st_def [symmetric] b_def [symmetric] m_def)
  have l': "length ps' = N"
    using SimulateParticles_particles [of D secs 0 "particles st1" b] sim l1 by simp
  have n': "ps' ! i = (if Particle_lifetime (particles st1 ! i) \<noteq> 0 \<and> Particle_lifetime (particles st1 ! i) < 1
        then particles st1 ! i else AnimateParticle D (particles st1 ! i) secs)" if "i < N" for i
    using SimulateParticles_particles [of D secs 0 "particles st1" b] sim l1 that by simp
  have slots': "Particle_next (ps' ! i) = (if i + 1 < N then Some (i + 1) else None)
      \<and> Particle_radius (ps' ! i) = 0 \<and> Particle_lifetime (ps' ! i) = - 1"
    if "j1 \<le> i" "i < N" for i
  proof -
    have e: "particles st1 ! i = ps ! i" using p1 that by blast
    have "j \<le> i" using jj that(1) by linarith
    note s = slots [OF this that(2)]
    show ?thesis
    proof (cases "k = 0")
      case True
      then have "ps' ! i = AnimateParticle D (ps ! i) secs" using n' [OF that(2)] s e by simp
      then show ?thesis using s True by (simp add: AnimateParticle_def Let_def)
    next
      case False
      then have "ps' ! i = ps ! i" using n' [OF that(2)] s e by simp
      then show ?thesis using s False by simp
    qed
  qed
  have sm: "particles (storage m) = ps'" "ticks (storage m) = int (k + 1)"
    "availableParticle (storage m) = (if j1 < N then Some j1 else None)"
    using t1 h1 by (simp_all add: m_def)
  have "pool_inv (k + 1) (storage m)"
    unfolding pool_inv_def Let_def sm l' using slots' by (simp add: j1_def)
  moreover have "isInitialized m" "Memory_size m = Memory_size memory"
    "length (particles (storage m)) = length (particles (storage memory))"
    using ini l' by (simp_all add: m_def N_def ps_def st_def)
  ultimately show ?thesis using u by blast
qed

lemma Run_pool_inv:
  assumes "pool_inv k (storage memory)" "isInitialized memory"
    and "sizeof_State D < Memory_size memory"
    and "\<forall>c \<in> set calls. 0 < width (fst c) \<and> width (fst c) < 2 ^ 31"
  shows "\<exists>memory' sd'. Run D memory sd calls = Inr (memory', sd')
    \<and> pool_inv (k + length calls) (storage memory')
    \<and> length (particles (storage memory')) = length (particles (storage memory))"
  using assms
proof (induction calls arbitrary: memory sd k)
  case Nil
  then show ?case by simp
next
  case (Cons c calls)
  obtain buffer secs where c: "c = (buffer, secs)" by (cases c)
  have w: "0 < width buffer" "width buffer < 2 ^ 31" using Cons.prems(4) c by simp_all
  obtain m1 sd1 b1 where u: "UpdateAndRender D memory sd buffer secs = Inr (m1, sd1, b1)"
    and i1: "pool_inv (k + 1) (storage m1)" "isInitialized m1"
    and s1: "Memory_size m1 = Memory_size memory"
    and l1: "length (particles (storage m1)) = length (particles (storage memory))"
    using pool_inv_step [OF Cons.prems(1,2,3) w, of sd secs] by blast
  have "\<exists>memory' sd'. Run D m1 sd1 calls = Inr (memory', sd')
    \<and> pool_inv (k + 1 + length calls) (storage memory')
    \<and> length (particles (storage memory')) = length (particles (storage m1))"
    using i1 s1 Cons.prems(3,4) by (intro Cons.IH) simp_all
  then show ?case using u l1 c by simp
qed

lemma UpdateAndRender_first:
  assumes "\<not> isInitialized memory"
  shows "UpdateAndRender D memory sd buffer secs
     = UpdateAndRender D (fst (Initialize memory sd)) (snd (Initialize memory sd)) buffer secs"
proof -
  obtain m0 sd0 where i: "Initialize memory sd = (m0, sd0)" by (cases "Initialize memory sd")
  have "isInitialized m0" "Memory_size m0 = Memory_size memory"
    using Initialize_first [OF assms, of sd] i by simp_all
  then show ?thesis
    by (cases "sizeof_State D < Memory_size memory")
      (simp_all add: UpdateAndRender_def Assert_def i Initialize_initialized)
qed

lemma pool_inv_zero_memory:
  assumes "0 < n"
  shows "pool_inv 0 (storage (fst (Initialize (zero_memory n sz) sd)))"
proof -
  let ?m = "zero_memory n sz"
  have ni: "\<not> isInitialized ?m" by (simp add: zero_memory_def)
  have len: "length (particles (storage ?m)) = n" by (simp add: zero_memory_def)
  note f = Initialize_first [OF ni, of sd]
  have nth: "particles (storage (fst (Initialize ?m sd))) ! i
      = (if i + 1 < n then zero_particle\<lparr>Particle_next := Some (i + 1)\<rparr> else zero_particle)"
    if "i < n" for i
    using Initialize_links [OF ni, of i sd] that by (simp add: zero_memory_def)
  have "length (particles (storage (fst (Initialize ?m sd)))) = n" using f len by simp
  moreover have "ticks (storage (fst (Initialize ?m sd))) = 0" using f by (simp add: zero_memory_def)
  moreover have "availableParticle (storage (fst (Initialize ?m sd))) = Some 0" using f by simp
  ultimately show ?thesis
    unfolding pool_inv_def Let_def using assms nth by (simp add: zero_particle_def)
qed

text \<open>
  C9: the loop body, on a slot of radius 0 and lifetime 0 (a slot of a zero block),
  animates the particle, leaves the frame buffer as it is and sets the lifetime to \<open>-1\<close>;
  on a slot whose lifetime is nonzero and less than one it changes neither the particle
  nor the frame buffer. So the loop over all slots draws the frame that the loop over
  the first \<open>j\<close> slots alone draws, when the slots from \<open>j\<close> on have radius 0 and
  lifetime 0 or \<open>-1\<close>. On a block that is all zero, with \<open>n\<close> slots, any sequence of
  one or more calls returns, the head of the free list is then slot
  \<open>j = (number of calls + 1) div 2\<close> (none if \<open>j \<ge> n\<close>), and every slot from \<open>j\<close> on, the
  slots not acquired so far, has radius 0 and lifetime \<open>-1\<close>: it meets the skip condition.
\<close>

theorem unacquired_slot_never_drawn:
  assumes "0 < n" and "sizeof_State D < sz" and "calls \<noteq> []"
    and "\<forall>c \<in> set calls. 0 < width (fst c) \<and> width (fst c) < 2 ^ 31"
  shows "(\<forall>p buffer secs. Particle_radius p = 0 \<and> Particle_lifetime p = 0 \<longrightarrow>
            SimulateParticle D secs p buffer
              = (p\<lparr>Particle_x := fl D (Particle_x p),
                   Particle_y := fl D (Particle_y p + fl D (160 * secs)),
                   Particle_lifetime := - 1\<rparr>, buffer))
    \<and> (\<forall>p buffer secs. Particle_lifetime p \<noteq> 0 \<and> Particle_lifetime p < 1 \<longrightarrow>
            SimulateParticle D secs p buffer = (p, buffer))
    \<and> (\<forall>ps j buffer secs.
          (\<forall>i. j \<le> i \<and> i < length ps \<longrightarrow> Particle_radius (ps ! i) = 0
                \<and> (Particle_lifetime (ps ! i) = 0 \<or> Particle_lifetime (ps ! i) = - 1)) \<longrightarrow>
          snd (SimulateParticles D secs 0 ps buffer) = snd (SimulateParticles D secs 0 (take j ps) buffer))
    \<and> (\<exists>memory sd'. Run D (zero_memory n sz) sd calls = Inr (memory, sd')
          \<and> length (particles (storage memory)) = n
          \<and> availableParticle (storage memory)
              = (if (length calls + 1) div 2 < n then Some ((length calls + 1) div 2) else None)
          \<and> (\<forall>i. (length calls + 1) div 2 \<le> i \<and> i < n \<longrightarrow>
                Particle_radius (particles (storage memory) ! i) = 0
                \<and> Particle_lifetime (particles (storage memory) ! i) = - 1))"
proof -
  let ?z = "zero_memory n sz"
  obtain c cs where calls: "calls = c # cs" using assms(3) by (cases calls) auto
  obtain buffer secs where c: "c = (buffer, secs)" by (cases c)
  obtain m0 sd0 where i: "Initialize ?z sd = (m0, sd0)" by (cases "Initialize ?z sd")
  have ni: "\<not> isInitialized ?z" by (simp add: zero_memory_def)
  have m0: "pool_inv 0 (storage m0)" "isInitialized m0" "sizeof_State D < Memory_size m0"
    "length (particles (storage m0)) = n"
    using pool_inv_zero_memory [OF assms(1), of sz sd] Initialize_first [OF ni, of sd] i assms(2)
    by (simp_all add: zero_memory_def)
  have "Run D ?z sd calls = Run D m0 sd0 calls"
    unfolding calls c using UpdateAndRender_first [OF ni, of D sd buffer secs] i by simp
  moreover obtain m sd' where r: "Run D m0 sd0 calls = Inr (m, sd')"
    and inv: "pool_inv (0 + length calls) (storage m)"
    and len: "length (particles (storage m)) = length (particles (storage m0))"
    using Run_pool_inv [OF m0(1,2,3) assms(4), of sd0] by blast
  ultimately have run: "Run D ?z sd calls = Inr (m, sd')" by simp
  have k: "length calls \<noteq> 0" using assms(3) by simp
  have N: "length (particles (storage m)) = n" using len m0(4) by simp
  define j where "j = (length calls + 1) div 2"
  have head: "availableParticle (storage m) = (if j < n then Some j else None)"
    using inv unfolding pool_inv_def Let_def N j_def by (auto simp: min_def)
  have slots: "Particle_radius (particles (storage m) ! i) = 0
      \<and> Particle_lifetime (particles (storage m) ! i) = - 1" if "j \<le> i \<and> i < n" for i
  proof -
    have "min n j \<le> i" using that by simp
    then show ?thesis using inv that k unfolding pool_inv_def Let_def N j_def by simp
  qed
  have fresh: "\<forall>p buffer secs. Particle_radius p = 0 \<and> Particle_lifetime p = 0 \<longrightarrow>
      SimulateParticle D secs p buffer
        = (p\<lparr>Particle_x := fl D (Particle_x p),
             Particle_y := fl D (Particle_y p + fl D (160 * secs)),
             Particle_lifetime := - 1\<rparr>, buffer)"
    using SimulateParticle_fresh by blast
  have skip: "\<forall>p buffer secs. Particle_lifetime p \<noteq> 0 \<and> Particle_lifetime p < 1 \<longrightarrow>
      SimulateParticle D secs p buffer = (p, buffer)"
    using SimulateParticle_skip by blast
  have loop: "\<forall>ps j buffer secs.
      (\<forall>i. j \<le> i \<and> i < length ps \<longrightarrow> Particle_radius (ps ! i) = 0
            \<and> (Particle_lifetime (ps ! i) = 0 \<or> Particle_lifetime (ps ! i) = - 1)) \<longrightarrow>
      snd (SimulateParticles D secs 0 ps buffer) = snd (SimulateParticles D secs 0 (take j ps) buffer)"
    using SimulateParticles_idle_suffix by blast
  have calls: "\<exists>memory sd'. Run D (zero_memory n sz) sd calls = Inr (memory, sd')
      \<and> length (particles (storage memory)) = n
      \<and> availableParticle (storage memory)
          = (if (length calls + 1) div 2 < n then Some ((length calls + 1) div 2) else None)
      \<and> (\<forall>i. (length calls + 1) div 2 \<le> i \<and> i < n \<longrightarrow>
            Particle_radius (particles (storage memory) ! i) = 0
            \<and> Particle_lifetime (particles (storage memory) ! i) = - 1)"
    using run N head slots unfolding j_def by blast
  show ?thesis using fresh skip loop calls by (intro conjI)
qed

theorem unacquired_slot_never_drawn_witness:
  "\<exists>memory sd'. Run sample_decls (zero_memory 2 128) (0, 0) [(sample_buffer, 1 / 60)] = Inr (memory, sd')
     \<and> Particle_radius (particles (storage memory) ! 1) = 0
     \<and> Particle_lifetime (particles (storage memory) ! 1) = - 1"
proof -
  have h: "(0::nat) < 2" "sizeof_State sample_decls < 128" "[(sample_buffer, 1 / 60 :: real)] \<noteq> []"
    "\<forall>c \<in> set [(sample_buffer, 1 / 60 :: real)]. 0 < width (fst c) \<and> width (fst c) < 2 ^ 31"
    by (simp_all add: sample_decls_def sample_buffer_def)
  from unacquired_slot_never_drawn [OF h, of "(0, 0)"]
  obtain memory sd' where
    r: "Run sample_decls (zero_memory 2 128) (0, 0) [(sample_buffer, 1 / 60)] = Inr (memory, sd')"
    and s: "\<forall>i. (length [(sample_buffer, 1 / 60 :: real)] + 1) div 2 \<le> i \<and> i < 2 \<longrightarrow>
                Particle_radius (particles (storage memory) ! i) = 0
                \<and> Particle_lifetime (particles (storage memory) ! i) = - 1"
    by blast
  have "(length [(sample_buffer, 1 / 60 :: real)] + 1) div 2 \<le> (1::nat) \<and> (1::nat) < 2" by simp
  then have "Particle_radius (particles (storage memory) ! 1) = 0
      \<and> Particle_lifetime (particles (storage memory) ! 1) = - 1" using s by blast
  then show ?thesis using r by blast
qed

end
